theory Spec2Isabelle
  imports Main "HOL-Library.Word" "HOL-Library.AList" "HOL-Library.Char_ord"
    "HOL-Library.List_Lexorder"
begin

unbundle bit_operations_syntax

section \<open>hrdups: the build phase (hrdups.cpp, lines 11-123 and 163-173)\<close>

subsection \<open>Data\<close>

text \<open>
  A path is the sequence of its components (\<open>std::filesystem::path\<close>); \<open>entry.path()\<close>
  of an entry named \<open>n\<close> met while iterating over directory \<open>p\<close> is \<open>p @ [n]\<close>, and
  \<open>parent_path\<close> drops the last component.
\<close>

type_synonym path = "string list"

type_synonym size_t = "64 word"

text \<open>
  What a directory iteration yields: the entries in iteration order, each with its file name
  and its kind. A directory carries its own listing, or \<open>None\<close> when
  \<open>directory_iterator\<close> cannot open it (it then throws \<open>filesystem_error\<close>).
  \<open>Other\<close> is an entry that is neither symlink, directory nor regular file.
\<close>

datatype entry =
    Symlink string
  | Other string
  | Regular string
  | Directory string "entry list option"

text \<open>
  What opening a regular file for reading shows: its length in bytes and the SHA-256 digest of
  its bytes. \<open>content p = None\<close> means that the stream on \<open>p\<close> cannot be opened.
\<close>

record file_data =
  bytes :: size_t
  sha256 :: "256 word"

type_synonym content = "path \<Rightarrow> file_data option"

datatype error =
    Cannot_iterate path
  | Cannot_open path
  | Bad_index
  | Cannot_delete_file path
  | Cannot_delete_directory path
  | Cannot_create_hardlink path path

text \<open>
  \<open>traverse_map_t\<close>: \<open>std::map\<close> from size to \<open>std::map\<close> from hash to the vector of file
  names. Both maps are association lists with one entry per key; \<open>operator[]\<close> is \<open>at\<close>
  (the default value for a key that is absent) followed by \<open>AList.update\<close>, \<open>size()\<close> is
  the length, \<open>clear()\<close> gives \<open>[]\<close>. Iteration (in key order) sorts the entries by key.
\<close>

type_synonym bucket = "(string \<times> path list) list"

type_synonym traverse_map_t = "(size_t \<times> bucket) list"

definition at :: "('k \<times> 'v list) list \<Rightarrow> 'k \<Rightarrow> 'v list" where
  "at m k = (case map_of m k of None \<Rightarrow> [] | Some v \<Rightarrow> v)"

text \<open>
  The state of the build: the map, and the paths that \<open>fhash\<close> has hashed so far, in order
  (what \<open>verbose\<close> prints, one path per computed hash).
\<close>

record bstate =
  tmap :: traverse_map_t
  hashed :: "path list"

subsection \<open>fsize and fhash\<close>

text \<open>
  \<open>fsize\<close>: \<open>tellg()\<close> on a stream opened at the end is the length of the file; on a stream
  that failed to open it is \<open>pos_type(-1)\<close>, which the return converts to \<open>size_t\<close>.
\<close>

definition fsize :: "content \<Rightarrow> path \<Rightarrow> size_t" where
  "fsize c file_path = (case c file_path of None \<Rightarrow> - 1 | Some f \<Rightarrow> bytes f)"

definition hex_digit :: "nat \<Rightarrow> char" where
  "hex_digit n = ''0123456789abcdef'' ! n"

text \<open>One byte under \<open>std::hex\<close>, \<open>setfill('0')\<close> and \<open>setw(2)\<close>.\<close>

definition hex2 :: "8 word \<Rightarrow> string" where
  "hex2 b = [hex_digit (unat b div 16), hex_digit (unat b mod 16)]"

text \<open>The array \<open>hash[SHA256_DIGEST_LENGTH]\<close>: the 32 bytes of the digest, first byte first.\<close>

definition digest_bytes :: "256 word \<Rightarrow> 8 word list" where
  "digest_bytes w = map (\<lambda>i. ucast (drop_bit (8 * (31 - i)) w)) [0..<32]"

definition hash_str :: "256 word \<Rightarrow> string" where
  "hash_str w = concat (map hex2 (digest_bytes w))"

text \<open>
  \<open>fhash\<close> throws \<open>runtime_error\<close> when the file cannot be opened; otherwise it reads the
  file, and returns the digest in hexadecimal. The path is added to \<open>hashed\<close>.
\<close>

definition fhash :: "content \<Rightarrow> path \<Rightarrow> bstate \<Rightarrow> bstate \<times> (error + string)" where
  "fhash c file_path st =
     (case c file_path of
        None \<Rightarrow> (st, Inl (Cannot_open file_path))
      | Some f \<Rightarrow> (st\<lparr>hashed := hashed st @ [file_path]\<rparr>, Inr (hash_str (sha256 f))))"

subsection \<open>traverse\<close>

text \<open>\<open>same_size_map[h].emplace_back(p)\<close>\<close>

definition emplace_back :: "string \<Rightarrow> path \<Rightarrow> bucket \<Rightarrow> bucket" where
  "emplace_back h p same_size_map = AList.update h (at same_size_map h @ [p]) same_size_map"

text \<open>
  Lines 113-115, run when the bucket has one key: the vector of that key is moved out, the
  bucket cleared, and the vector stored again under the hash of its first file. When
  \<open>fhash\<close> throws, the bucket stays cleared. The result is the bucket, the state and the
  exception, if any. (\<open>file_names[0]\<close> on an empty vector is undefined in C++; the model
  gives \<open>Bad_index\<close>.)
\<close>

definition lazy_hash :: "content \<Rightarrow> bucket \<Rightarrow> bstate \<Rightarrow> bucket \<times> bstate \<times> error option" where
  "lazy_hash c same_size_map st =
     (let file_names = snd (hd same_size_map) in
      case file_names of
        [] \<Rightarrow> ([], st, Some Bad_index)
      | f # _ \<Rightarrow>
          (case fhash c f st of
             (st', Inl e) \<Rightarrow> ([], st', Some e)
           | (st', Inr h) \<Rightarrow> ([(h, file_names)], st', None)))"

text \<open>
  Lines 102-119, the body for a regular file. \<open>map[size]\<close> creates the bucket when the size
  is new, so the bucket is written back in every branch after the size test.
\<close>

definition add_file :: "content \<Rightarrow> path \<Rightarrow> bstate \<Rightarrow> bstate \<times> error option" where
  "add_file c entry_path st =
     (let size = fsize c entry_path in
      if size = 0 then (st, None)
      else
        let same_size_map = at (tmap st) size;
            count = length same_size_map
        in
          if count = 0 then
            (st\<lparr>tmap := AList.update size (emplace_back [] entry_path same_size_map) (tmap st)\<rparr>,
             None)
          else
            (case (if count = 1 then lazy_hash c same_size_map st
                   else (same_size_map, st, None)) of
               (b1, st1, Some e) \<Rightarrow> (st1\<lparr>tmap := AList.update size b1 (tmap st1)\<rparr>, Some e)
             | (b1, st1, None) \<Rightarrow>
                 (case fhash c entry_path st1 of
                    (st2, Inl e) \<Rightarrow> (st2\<lparr>tmap := AList.update size b1 (tmap st2)\<rparr>, Some e)
                  | (st2, Inr h) \<Rightarrow>
                      (st2\<lparr>tmap := AList.update size (emplace_back h entry_path b1) (tmap st2)\<rparr>,
                       None))))"

text \<open>
  \<open>traverse path map\<close>: \<open>dir\<close> is what \<open>directory_iterator(path)\<close> finds. An exception
  leaves the loop and every enclosing call; the map keeps what was written before it.
\<close>

fun traverse :: "content \<Rightarrow> path \<Rightarrow> entry list option \<Rightarrow> bstate \<Rightarrow> bstate \<times> error option"
  and traverse_loop :: "content \<Rightarrow> path \<Rightarrow> entry list \<Rightarrow> bstate \<Rightarrow> bstate \<times> error option"
  and traverse_entry :: "content \<Rightarrow> path \<Rightarrow> entry \<Rightarrow> bstate \<Rightarrow> bstate \<times> error option"
where
  "traverse c path None st = (st, Some (Cannot_iterate path))"
| "traverse c path (Some entries) st = traverse_loop c path entries st"
| "traverse_loop c path [] st = (st, None)"
| "traverse_loop c path (e # es) st =
     (case traverse_entry c path e st of
        (st', Some err) \<Rightarrow> (st', Some err)
      | (st', None) \<Rightarrow> traverse_loop c path es st')"
| "traverse_entry c path (Symlink n) st = (st, None)"
| "traverse_entry c path (Other n) st = (st, None)"
| "traverse_entry c path (Directory n dir) st = traverse c (path @ [n]) dir st"
| "traverse_entry c path (Regular n) st = add_file c (path @ [n]) st"

text \<open>
  Lines 159-173 of \<open>main\<close>: the roots are traversed in order inside one \<open>try\<close> block; the
  first exception ends the loop and is printed as a warning. \<open>ls\<close> gives, for a root named on
  the command line, what \<open>directory_iterator\<close> finds there.
\<close>

fun traverse_paths ::
  "content \<Rightarrow> (string \<Rightarrow> entry list option) \<Rightarrow> string list \<Rightarrow> bstate \<Rightarrow> bstate \<times> error option"
where
  "traverse_paths c ls [] st = (st, None)"
| "traverse_paths c ls (p # ps) st =
     (case traverse c [p] (ls p) st of
        (st', Some err) \<Rightarrow> (st', Some err)
      | (st', None) \<Rightarrow> traverse_paths c ls ps st')"

definition build :: "content \<Rightarrow> (string \<Rightarrow> entry list option) \<Rightarrow> string list \<Rightarrow> bstate \<times> error option" where
  "build c ls paths =
     traverse_paths c ls (if paths = [] then [''./''] else paths) \<lparr>tmap = [], hashed = []\<rparr>"

section \<open>hrdups: the mutation phase (hrdups.cpp, lines 83-89 and 175-257)\<close>

subsection \<open>The file system\<close>

text \<open>
  The mutation phase sees the file system through \<open>stat\<close>, \<open>std::remove\<close>,
  \<open>is_directory\<close>, \<open>directory_iterator\<close>, \<open>create_hard_link\<close>, \<open>chown\<close> and \<open>chmod\<close>.
  The model is a table of directory entries (\<open>names\<close>: the place of an entry, as the list of
  the names that lead to it, to its inode number; hard links are two entries of one inode),
  the attributes of each inode that \<open>struct stat\<close> shows to the program, and the operations
  the system refuses (permissions, read-only or full devices, a link across devices). Every
  modifying call is recorded with its outcome in \<open>trace\<close>.

  The program names files by paths, and several paths name one entry (\<open>d/x\<close>, \<open>./d/x\<close>,
  \<open>d/./x\<close>, \<open>e/../d/x\<close>, a path through a symbolic link to \<open>d\<close>). How the system walks
  a path is given for the directory tree at the start of the run: \<open>resolve p\<close> is the entry
  that \<open>p\<close> leads to and \<open>through p\<close> are the directories that the walk passes on its way
  (for \<open>e/../d/x\<close> these are \<open>e\<close> and \<open>d\<close>). The program creates and renames no directory,
  so a walk only changes by failing: a path leads nowhere once a directory on its way has been
  removed. A path whose last name is a symbolic link is taken for the entry that the link
  points to; \<open>traverse\<close> skips symbolic links, so no path of the map ends in one.
\<close>

type_synonym ino = nat

record struct_stat =
  st_uid :: "32 word"
  st_gid :: "32 word"
  st_mode :: "32 word"
  st_dev :: "64 word"

datatype fsop =
    Remove path
  | Create_hard_link path path
  | Chown path "32 word" "32 word"
  | Chmod path "32 word"

record filesys =
  resolve :: "path \<Rightarrow> path"
  through :: "path \<Rightarrow> path list"
  names :: "(path \<times> ino) list"
  inodes :: "ino \<Rightarrow> struct_stat"
  denied :: "fsop \<Rightarrow> bool"
  trace :: "(fsop \<times> bool) list"

text \<open>\<open>S_ISDIR\<close>: the file type bits \<open>S_IFMT = 0170000\<close> are \<open>S_IFDIR = 0040000\<close>.\<close>

definition dir_entry :: "filesys \<Rightarrow> path \<Rightarrow> bool" where
  "dir_entry fs e =
     (case map_of (names fs) e of
        None \<Rightarrow> False
      | Some i \<Rightarrow> st_mode (inodes fs i) AND 0xF000 = 0x4000)"

definition reachable :: "filesys \<Rightarrow> path \<Rightarrow> bool" where
  "reachable fs p = list_all (dir_entry fs) (through fs p)"

text \<open>The inode that a path leads to, if any.\<close>

definition lookup :: "filesys \<Rightarrow> path \<Rightarrow> ino option" where
  "lookup fs p = (if reachable fs p then map_of (names fs) (resolve fs p) else None)"

definition stat :: "filesys \<Rightarrow> path \<Rightarrow> struct_stat option" where
  "stat fs p = map_option (inodes fs) (lookup fs p)"

definition is_directory :: "filesys \<Rightarrow> path \<Rightarrow> bool" where
  "is_directory fs p =
     (case stat fs p of None \<Rightarrow> False | Some s \<Rightarrow> st_mode s AND 0xF000 = 0x4000)"

definition parent_path :: "path \<Rightarrow> path" where
  "parent_path p = butlast p"

text \<open>
  The directories that hold an entry, outermost first: its proper prefixes. A path without
  \<open>.\<close>, \<open>..\<close> and symbolic links is the place of its entry and is walked through these.
\<close>

fun ancestors :: "path \<Rightarrow> path list" where
  "ancestors [] = []"
| "ancestors (n # rest) = (if rest = [] then [] else [n] # map ((#) n) (ancestors rest))"

text \<open>The entries directly inside a directory.\<close>

definition directory_iterator :: "filesys \<Rightarrow> path \<Rightarrow> path list" where
  "directory_iterator fs dir =
     filter (\<lambda>q. q \<noteq> [] \<and> parent_path q = resolve fs dir) (map fst (names fs))"

definition record_op :: "fsop \<Rightarrow> bool \<Rightarrow> filesys \<Rightarrow> filesys" where
  "record_op call ok fs = fs\<lparr>trace := trace fs @ [(call, ok)]\<rparr>"

text \<open>
  \<open>std::remove\<close> unlinks a file and removes a directory that is empty: the entry that the
  path leads to is taken out of the table. The result is the file system and whether the call
  succeeded (returned 0).
\<close>

definition std_remove :: "filesys \<Rightarrow> path \<Rightarrow> filesys \<times> bool" where
  "std_remove fs p =
     (if denied fs (Remove p) \<or> lookup fs p = None \<or>
         (is_directory fs p \<and> directory_iterator fs p \<noteq> [])
      then (record_op (Remove p) False fs, False)
      else (record_op (Remove p) True (fs\<lparr>names := AList.delete (resolve fs p) (names fs)\<rparr>),
            True))"

text \<open>
  \<open>create_hard_link to new_link ec\<close>: the target must exist and not be a directory, the
  directories on the way to the new entry must exist and the entry must be free. The result
  says whether \<open>ec\<close> stayed 0.
\<close>

definition create_hard_link :: "filesys \<Rightarrow> path \<Rightarrow> path \<Rightarrow> filesys \<times> bool" where
  "create_hard_link fs to new_link =
     (case lookup fs to of
        None \<Rightarrow> (record_op (Create_hard_link to new_link) False fs, False)
      | Some i \<Rightarrow>
          if denied fs (Create_hard_link to new_link) \<or> is_directory fs to \<or>
             \<not> reachable fs new_link \<or> map_of (names fs) (resolve fs new_link) \<noteq> None
          then (record_op (Create_hard_link to new_link) False fs, False)
          else (record_op (Create_hard_link to new_link) True
                  (fs\<lparr>names := AList.update (resolve fs new_link) i (names fs)\<rparr>), True))"

text \<open>\<open>chown\<close> and \<open>chmod\<close>; the program ignores their results.\<close>

definition chown :: "filesys \<Rightarrow> path \<Rightarrow> 32 word \<Rightarrow> 32 word \<Rightarrow> filesys" where
  "chown fs p uid gid =
     (case lookup fs p of
        None \<Rightarrow> record_op (Chown p uid gid) False fs
      | Some i \<Rightarrow>
          if denied fs (Chown p uid gid) then record_op (Chown p uid gid) False fs
          else record_op (Chown p uid gid) True
                 (fs\<lparr>inodes := (inodes fs)(i := (inodes fs i)\<lparr>st_uid := uid, st_gid := gid\<rparr>)\<rparr>))"

text \<open>\<open>chmod\<close> replaces the permission bits \<open>07777\<close> and keeps the file type bits.\<close>

definition chmod :: "filesys \<Rightarrow> path \<Rightarrow> 32 word \<Rightarrow> filesys" where
  "chmod fs p mode =
     (case lookup fs p of
        None \<Rightarrow> record_op (Chmod p mode) False fs
      | Some i \<Rightarrow>
          if denied fs (Chmod p mode) then record_op (Chmod p mode) False fs
          else record_op (Chmod p mode) True
                 (fs\<lparr>inodes := (inodes fs)
                    (i := (inodes fs i)
                       \<lparr>st_mode := (st_mode (inodes fs i) AND NOT 0xFFF) OR (mode AND 0xFFF)\<rparr>)\<rparr>))"

subsection \<open>compare_file_attributes\<close>

definition compare_file_attributes :: "filesys \<Rightarrow> path \<Rightarrow> path \<Rightarrow> bool" where
  "compare_file_attributes fs a b =
     (case stat fs a of
        None \<Rightarrow> False
      | Some stat1 \<Rightarrow>
          (case stat fs b of
             None \<Rightarrow> False
           | Some stat2 \<Rightarrow>
               st_uid stat1 = st_uid stat2 \<and> st_gid stat1 = st_gid stat2 \<and>
               st_mode stat1 = st_mode stat2 \<and> st_dev stat1 = st_dev stat2))"

subsection \<open>The loops of main\<close>

record config =
  keep :: bool
  pretend :: bool
  remove :: bool

text \<open>
  What the program prints (\<open>Warning_line\<close> goes to \<open>std::cerr\<close>). \<open>Saved_line n\<close> is the
  last line, for \<open>saved = n\<close> bytes; the program prints \<open>n / 2^20\<close> with two decimals.
\<close>

datatype line =
    Building_line
  | Warning_line error
  | Removing_line
  | Hard_linking_line
  | Group_line int path
  | File_line path
  | Mismatch_line path path
  | Directory_removed_line path
  | Done_line
  | Saved_line size_t

record mstate =
  fs :: filesys
  saved :: size_t
  number :: int
  out :: "line list"

text \<open>Lines 211-228: the check for an empty folder, after a file in \<open>dir\<close> was removed.\<close>

definition prune :: "path \<Rightarrow> mstate \<Rightarrow> mstate \<times> error option" where
  "prune dir st =
     (if is_directory (fs st) dir then
        (if directory_iterator (fs st) dir = [] then
           (case std_remove (fs st) dir of
              (fs', False) \<Rightarrow> (st\<lparr>fs := fs'\<rparr>, Some (Cannot_delete_directory dir))
            | (fs', True) \<Rightarrow>
                (st\<lparr>fs := fs', out := out st @ [Directory_removed_line dir]\<rparr>, None))
         else (st, None))
      else (st, None))"

text \<open>Lines 202-244: what is done to a matching pair when \<open>pretend\<close> is off.\<close>

definition relink :: "config \<Rightarrow> path \<Rightarrow> path \<Rightarrow> mstate \<Rightarrow> mstate \<times> error option" where
  "relink cfg base file st =
     (case std_remove (fs st) file of
        (fs1, False) \<Rightarrow> (st\<lparr>fs := fs1\<rparr>, Some (Cannot_delete_file file))
      | (fs1, True) \<Rightarrow>
          if remove cfg then
            (if \<not> keep cfg then prune (parent_path file) (st\<lparr>fs := fs1\<rparr>)
             else (st\<lparr>fs := fs1\<rparr>, None))
          else
            (case create_hard_link fs1 base file of
               (fs2, False) \<Rightarrow> (st\<lparr>fs := fs2\<rparr>, Some (Cannot_create_hardlink base file))
             | (fs2, True) \<Rightarrow>
                 (st\<lparr>fs :=
                     (case stat fs2 base of
                        None \<Rightarrow> fs2
                      | Some base_stat \<Rightarrow>
                          chmod (chown fs2 file (st_uid base_stat) (st_gid base_stat))
                            file (st_mode base_stat))\<rparr>,
                  None)))"

text \<open>Lines 194-251: the body of the loop over the files of a group after the base.\<close>

definition dedup_file ::
  "config \<Rightarrow> size_t \<Rightarrow> path \<Rightarrow> path \<Rightarrow> mstate \<Rightarrow> mstate \<times> error option" where
  "dedup_file cfg sz base file st0 =
     (let st = st0\<lparr>out := out st0 @ [File_line file]\<rparr> in
      if compare_file_attributes (fs st) base file then
        (case (if \<not> pretend cfg then relink cfg base file st else (st, None)) of
           (st', Some e) \<Rightarrow> (st', Some e)
         | (st', None) \<Rightarrow> (st'\<lparr>saved := saved st' + sz\<rparr>, None))
      else (st\<lparr>out := out st @ [Mismatch_line base file]\<rparr>, None))"

text \<open>Line 193: \<open>for (i = 1; i < count; ++i)\<close>, over the files after the base.\<close>

fun dedup_files ::
  "config \<Rightarrow> size_t \<Rightarrow> path \<Rightarrow> path list \<Rightarrow> mstate \<Rightarrow> mstate \<times> error option" where
  "dedup_files cfg sz base [] st = (st, None)"
| "dedup_files cfg sz base (file # files) st =
     (case dedup_file cfg sz base file st of
        (st', Some e) \<Rightarrow> (st', Some e)
      | (st', None) \<Rightarrow> dedup_files cfg sz base files st')"

text \<open>Lines 181-252: one entry of a bucket.\<close>

definition dedup_group ::
  "config \<Rightarrow> size_t \<Rightarrow> path list \<Rightarrow> mstate \<Rightarrow> mstate \<times> error option" where
  "dedup_group cfg sz file_names st =
     (case file_names of
        base # file # files \<Rightarrow>
          dedup_files cfg sz base (file # files)
            (st\<lparr>number := number st + 1, out := out st @ [Group_line (number st + 1) base]\<rparr>)
      | _ \<Rightarrow> (st, None))"

text \<open>Line 180: the loop over a bucket, and line 179: the loop over the map.\<close>

fun dedup_bucket ::
  "config \<Rightarrow> size_t \<Rightarrow> bucket \<Rightarrow> mstate \<Rightarrow> mstate \<times> error option" where
  "dedup_bucket cfg sz [] st = (st, None)"
| "dedup_bucket cfg sz ((hash, file_names) # rest) st =
     (case dedup_group cfg sz file_names st of
        (st', Some e) \<Rightarrow> (st', Some e)
      | (st', None) \<Rightarrow> dedup_bucket cfg sz rest st')"

fun dedup_map :: "config \<Rightarrow> traverse_map_t \<Rightarrow> mstate \<Rightarrow> mstate \<times> error option" where
  "dedup_map cfg [] st = (st, None)"
| "dedup_map cfg ((sz, same_size_map) # rest) st =
     (case dedup_bucket cfg sz (sort_key fst same_size_map) st of
        (st', Some e) \<Rightarrow> (st', Some e)
      | (st', None) \<Rightarrow> dedup_map cfg rest st')"

text \<open>
  \<open>main\<close> after the options are read. An exception of the build phase is caught and printed;
  an exception of the mutation phase is not caught: the process is terminated
  (\<open>std::terminate\<close>) and never reaches \<open>return 0\<close>. The build phase reads the file system
  through \<open>c\<close> and \<open>ls\<close>, the mutation phase through \<open>fs0\<close>; the model does not tie the two
  views together, and what is proved holds for every combination of them.
\<close>

datatype exit = Exit int | Terminated error

definition main ::
  "config \<Rightarrow> string list \<Rightarrow> content \<Rightarrow> (string \<Rightarrow> entry list option) \<Rightarrow> filesys
     \<Rightarrow> filesys \<times> line list \<times> exit" where
  "main cfg paths c ls fs0 =
     (case build c ls paths of
        (bst, warning) \<Rightarrow>
          (case dedup_map cfg (sort_key fst (tmap bst))
                  \<lparr>fs = fs0, saved = 0, number = 0,
                   out = [Building_line] @
                         (case warning of None \<Rightarrow> [] | Some e \<Rightarrow> [Warning_line e]) @
                         [if remove cfg then Removing_line else Hard_linking_line]\<rparr> of
             (st, Some e) \<Rightarrow> (fs st, out st, Terminated e)
           | (st, None) \<Rightarrow> (fs st, out st @ [Done_line, Saved_line (saved st)], Exit 0)))"

section \<open>hrdups, the earlier variant: grouping by one key (lines 267-325)\<close>






section \<open>Comparing the two groupings\<close>



text \<open>
  What a traversal meets, in order: the regular files (with the directory being iterated)
  and the directories that cannot be iterated.
\<close>

datatype event = Candidate path path | Unreadable path

fun walk :: "path \<Rightarrow> entry list option \<Rightarrow> event list"
  and walk_loop :: "path \<Rightarrow> entry list \<Rightarrow> event list"
  and walk_entry :: "path \<Rightarrow> entry \<Rightarrow> event list"
where
  "walk path None = [Unreadable path]"
| "walk path (Some entries) = walk_loop path entries"
| "walk_loop path [] = []"
| "walk_loop path (e # es) = walk_entry path e @ walk_loop path es"
| "walk_entry path (Symlink n) = []"
| "walk_entry path (Other n) = []"
| "walk_entry path (Directory n dir) = walk (path @ [n]) dir"
| "walk_entry path (Regular n) = [Candidate path (path @ [n])]"

fun run :: "(path \<Rightarrow> path \<Rightarrow> 's \<Rightarrow> 's \<times> error option) \<Rightarrow> event list \<Rightarrow> 's \<Rightarrow> 's \<times> error option" where
  "run step [] st = (st, None)"
| "run step (Unreadable p # evs) st = (st, Some (Cannot_iterate p))"
| "run step (Candidate d p # evs) st =
     (case step d p st of
        (st', Some err) \<Rightarrow> (st', Some err)
      | (st', None) \<Rightarrow> run step evs st')"

text \<open>The files met before the first directory that cannot be iterated, and that failure.\<close>

fun processed :: "event list \<Rightarrow> path list" where
  "processed [] = []"
| "processed (Unreadable p # evs) = []"
| "processed (Candidate d p # evs) = p # processed evs"





definition hkey :: "content \<Rightarrow> path \<Rightarrow> string" where
  "hkey c p = (case c p of None \<Rightarrow> [] | Some f \<Rightarrow> hash_str (sha256 f))"


text \<open>
  The bucket of a size after the files \<open>F\<close> of that size have been added: absent, the one
  file under the sentinel, or one entry per digest with the files of that digest.
\<close>

definition bucket_is :: "content \<Rightarrow> path list \<Rightarrow> bucket option \<Rightarrow> bool" where
  "bucket_is c F ob =
     (case F of
        [] \<Rightarrow> ob = None
      | [p] \<Rightarrow> ob = Some [([], [p])]
      | _ \<Rightarrow>
          (\<exists>b. ob = Some b \<and> distinct (map fst b) \<and>
             (\<forall>h. map_of b h = (if filter (\<lambda>p. hkey c p = h) F = [] then None
                                 else Some (filter (\<lambda>p. hkey c p = h) F)))))"

definition grouped :: "content \<Rightarrow> path list \<Rightarrow> traverse_map_t \<Rightarrow> bool" where
  "grouped c cs m =
     (distinct (map fst m) \<and> map_of m 0 = None \<and>
      (\<forall>s. s \<noteq> 0 \<longrightarrow> bucket_is c (filter (\<lambda>p. fsize c p = s) cs) (map_of m s)))"


section \<open>Predicates used in the proofs\<close>

subsection \<open>Invariant of the map\<close>

text \<open>\<open>hashed_as c h p\<close>: the file at \<open>p\<close> can be opened and \<open>h\<close> is its digest, in hex.\<close>

definition hashed_as :: "content \<Rightarrow> string \<Rightarrow> path \<Rightarrow> bool" where
  "hashed_as c h p = (case c p of None \<Rightarrow> False | Some f \<Rightarrow> hash_str (sha256 f) = h)"

definition bucket_ok :: "content \<Rightarrow> size_t \<Rightarrow> bucket \<Rightarrow> bool" where
  "bucket_ok c s b =
     (s \<noteq> 0 \<and>
      (\<forall>(h, file_names) \<in> set b.
         file_names \<noteq> [] \<and>
         (\<forall>p \<in> set file_names. fsize c p = s \<and> (h \<noteq> [] \<longrightarrow> hashed_as c h p)) \<and>
         (h = [] \<longrightarrow> b = [([], file_names)] \<and> length file_names = 1)))"

definition map_ok :: "content \<Rightarrow> traverse_map_t \<Rightarrow> bool" where
  "map_ok c m = (\<forall>(s, b) \<in> set m. bucket_ok c s b)"


subsection \<open>Hashing\<close>

text \<open>
  The files of a size that occurs once are never hashed: every path that \<open>fhash\<close> is called
  on has the size of at least two files met so far.
\<close>

definition hashed_twice_sized :: "content \<Rightarrow> path list \<Rightarrow> path list \<Rightarrow> bool" where
  "hashed_twice_sized c cs hs =
     (\<forall>x \<in> set hs. 2 \<le> length (filter (\<lambda>q. fsize c q = fsize c x) cs))"

subsection \<open>The trace of a run\<close>

text \<open>
  The calls whose failure the program turns into an exception, the exception that belongs to a
  call, and a trace in which no such call has failed.
\<close>

definition fatal_op :: "fsop \<Rightarrow> bool" where
  "fatal_op call = (case call of Remove _ \<Rightarrow> True | Create_hard_link _ _ \<Rightarrow> True | _ \<Rightarrow> False)"

definition raised_by :: "error \<Rightarrow> fsop \<Rightarrow> bool" where
  "raised_by e call =
     (case call of
        Remove p \<Rightarrow> e = Cannot_delete_file p \<or> e = Cannot_delete_directory p
      | Create_hard_link a b \<Rightarrow> e = Cannot_create_hardlink a b
      | _ \<Rightarrow> False)"

definition all_ok :: "(fsop \<times> bool) list \<Rightarrow> bool" where
  "all_ok tr = (\<forall>(call, ok) \<in> set tr. fatal_op call \<longrightarrow> ok)"

definition good :: "(fsop \<times> bool) list \<Rightarrow> error option \<Rightarrow> bool" where
  "good tr r =
     (case r of
        None \<Rightarrow> all_ok tr
      | Some e \<Rightarrow>
          \<exists>tr' call. tr = tr' @ [(call, False)] \<and> fatal_op call \<and> raised_by e call \<and> all_ok tr')"

subsection \<open>The paths of the map, and what a live run leaves unchanged\<close>






subsection \<open>Concrete inputs\<close>

text \<open>Every path opens as a file of one byte with digest 0.\<close>

definition one_byte :: content where
  "one_byte = (\<lambda>_. Some \<lparr>bytes = 1, sha256 = 0\<rparr>)"

text \<open>Every path opens as a file of 1 MiB with digest 0.\<close>

definition one_mib :: content where
  "one_mib = (\<lambda>_. Some \<lparr>bytes = 0x100000, sha256 = 0\<rparr>)"

text \<open>As \<open>one_byte\<close>, but \<open>d/u\<close> cannot be opened.\<close>

definition one_byte_but_u :: content where
  "one_byte_but_u = (\<lambda>p. if p = [''d'', ''u''] then None else Some \<lparr>bytes = 1, sha256 = 0\<rparr>)"

text \<open>One byte each; \<open>d/b\<close> has digest 1, every other file digest 0.\<close>

definition two_digests :: content where
  "two_digests = (\<lambda>p. Some \<lparr>bytes = 1, sha256 = (if p = [''d'', ''b''] then 1 else 0)\<rparr>)"

text \<open>As \<open>one_byte\<close>, but \<open>d/u1\<close> and \<open>d/u2\<close> cannot be opened.\<close>

definition but_u1_u2 :: content where
  "but_u1_u2 = (\<lambda>p. if p = [''d'', ''u1''] \<or> p = [''d'', ''u2''] then None
                      else Some \<lparr>bytes = 1, sha256 = 0\<rparr>)"

text \<open>A root with the regular file \<open>x\<close>, and a root with the regular files \<open>a\<close> and \<open>b\<close>.\<close>

definition ls_x :: "string \<Rightarrow> entry list option" where
  "ls_x = (\<lambda>_. Some [Regular ''x''])"

definition ls_ab :: "string \<Rightarrow> entry list option" where
  "ls_ab = (\<lambda>_. Some [Regular ''a'', Regular ''b''])"

definition ls_abc :: "string \<Rightarrow> entry list option" where
  "ls_abc = (\<lambda>_. Some [Regular ''a'', Regular ''b'', Regular ''c''])"

text \<open>The roots \<open>a\<close>, \<open>b\<close> and any other hold \<open>x\<close>, \<open>y\<close> and \<open>z\<close>.\<close>

definition ls_xyz :: "string \<Rightarrow> entry list option" where
  "ls_xyz = (\<lambda>root. Some [Regular (if root = ''a'' then ''x'' else if root = ''b'' then ''y''
                                    else ''z'')])"

text \<open>
  Inode numbers below 10 are directories (mode 040755), the others regular files (mode
  0100644), all of one owner, group and device.
\<close>

definition plain_inodes :: "ino \<Rightarrow> struct_stat" where
  "plain_inodes = (\<lambda>i. \<lparr>st_uid = 0, st_gid = 0,
                         st_mode = (if i < 10 then 0x41ED else 0x81A4), st_dev = 0\<rparr>)"

text \<open>
  The directory \<open>d\<close> with the file \<open>x\<close>. The roots \<open>./d\<close> and \<open>d/.\<close> are \<open>d\<close>; every other path
  is the place of its entry.
\<close>

definition resolve_dots :: "path \<Rightarrow> path" where
  "resolve_dots p =
     (case p of
        [] \<Rightarrow> []
      | root # rest \<Rightarrow> (if root = ''./d'' \<or> root = ''d/.'' then ''d'' else root) # rest)"

definition fs_x :: filesys where
  "fs_x = \<lparr>resolve = resolve_dots, through = (\<lambda>p. ancestors (resolve_dots p)),
           names = [([''d''], 1), ([''d'', ''x''], 10)], inodes = plain_inodes,
           denied = (\<lambda>_. False), trace = []\<rparr>"

text \<open>The directory \<open>d\<close> with \<open>a\<close> and \<open>b\<close>.\<close>

definition fs_ab :: filesys where
  "fs_ab = \<lparr>resolve = resolve_dots, through = (\<lambda>p. ancestors (resolve_dots p)),
            names = [([''d''], 1), ([''d'', ''a''], 10), ([''d'', ''b''], 11)],
            inodes = plain_inodes, denied = (\<lambda>_. False), trace = []\<rparr>"

text \<open>The same; the system refuses to remove \<open>d/b\<close>.\<close>

definition fs_ab_locked :: filesys where
  "fs_ab_locked = fs_ab\<lparr>denied := (\<lambda>call. call = Remove [''d'', ''b''])\<rparr>"

text \<open>The directory \<open>d\<close> holds only the directory \<open>s\<close>, which holds only \<open>b\<close>; \<open>e\<close> holds \<open>a\<close>.\<close>

definition fs_nested :: filesys where
  "fs_nested = \<lparr>resolve = (\<lambda>p. p), through = ancestors,
                names = [([''d''], 1), ([''d'', ''s''], 2), ([''d'', ''s'', ''b''], 11),
                         ([''e''], 3), ([''e'', ''a''], 10)],
                inodes = plain_inodes, denied = (\<lambda>_. False), trace = []\<rparr>"

text \<open>
  The directories \<open>a\<close>, \<open>b\<close> and \<open>c\<close> with the files \<open>x\<close>, \<open>y\<close> and \<open>z\<close>. The root
  \<open>b/../c\<close> is \<open>c\<close>, reached through \<open>b\<close>.
\<close>

definition fs_dotdot :: filesys where
  "fs_dotdot =
     \<lparr>resolve = (\<lambda>p. case p of [] \<Rightarrow> []
                         | root # rest \<Rightarrow> (if root = ''b/../c'' then ''c'' else root) # rest),
      through = (\<lambda>p. case p of [] \<Rightarrow> []
                         | root # rest \<Rightarrow>
                             if root = ''b/../c'' then [''b''] # ancestors (''c'' # rest)
                             else ancestors p),
      names = [([''a''], 1), ([''a'', ''x''], 10), ([''b''], 2), ([''b'', ''y''], 11),
               ([''c''], 3), ([''c'', ''z''], 12)],
      inodes = plain_inodes, denied = (\<lambda>_. False), trace = []\<rparr>"

section \<open>Properties of the build phase\<close>

lemmas build_simps = build_def add_file_def fsize_def at_def emplace_back_def lazy_hash_def
  fhash_def Let_def

lemma hash_str_0:
  "hash_str 0 = ''0000000000000000000000000000000000000000000000000000000000000000''"
  by (simp add: hash_str_def digest_bytes_def hex2_def hex_digit_def upt_rec)

lemma at_update: "at (AList.update k v m) k' = (if k' = k then v else at m k')"
  by (simp add: at_def update_conv')

subsection \<open>Lazy hashing\<close>

text \<open>
  C1 (the hash of each file is computed at most once in a build). The code tests the number
  of keys of the bucket (\<open>count == 1\<close>), not whether the one key is the unhashed sentinel.
  In a directory \<open>d\<close> with three files \<open>a\<close>, \<open>b\<close>, \<open>c\<close> of one byte and equal content,
  the bucket has one key again after \<open>b\<close>, so that on \<open>c\<close> lines 113-115 run a second time and
  hash \<open>d/a\<close> a second time.
\<close>

theorem three_equal_files_first_hashed_twice:
  "build (\<lambda>_. Some \<lparr>bytes = 1, sha256 = 0\<rparr>)
         (\<lambda>_. Some [Regular ''a'', Regular ''b'', Regular ''c'']) [''d'']
   = (\<lparr>tmap = [(1, [(hash_str 0, [[''d'', ''a''], [''d'', ''b''], [''d'', ''c'']])])],
       hashed = [[''d'', ''a''], [''d'', ''b''], [''d'', ''a''], [''d'', ''c'']]\<rparr>, None)"
  by (simp add: build_simps)

subsection \<open>Exceptions in the build phase\<close>

lemma traverse_loop_append:
  "traverse_loop c path (es @ rest) st =
     (case traverse_loop c path es st of
        (st', Some err) \<Rightarrow> (st', Some err)
      | (st', None) \<Rightarrow> traverse_loop c path rest st')"
  by (induction es arbitrary: st) (auto split: prod.splits option.splits)

lemma traverse_paths_append:
  "traverse_paths c ls (ps @ rest) st =
     (case traverse_paths c ls ps st of
        (st', Some err) \<Rightarrow> (st', Some err)
      | (st', None) \<Rightarrow> traverse_paths c ls rest st')"
  by (induction ps arbitrary: st) (auto split: prod.splits option.splits)

lemma update_same: "map_of m k = Some v \<Longrightarrow> AList.update k v m = m"
  by (induction m) auto

lemma at_Cons_update: "at m k = x # xs \<Longrightarrow> AList.update k (x # xs) m = m"
  by (rule update_same) (auto simp: at_def split: option.splits)

lemma add_file_first_unopenable:
  assumes "fsize c p \<noteq> 0" and "at (tmap st) (fsize c p) = [(h, f # others)]" and "c f = None"
  shows "add_file c p st = (st\<lparr>tmap := AList.update (fsize c p) [] (tmap st)\<rparr>, Some (Cannot_open f))"
  using assms by (simp add: add_file_def Let_def lazy_hash_def fhash_def)

lemma add_file_new_unopenable_lazy:
  assumes "c p = None" and "at (tmap st) (- 1) = [(h, f # others)]" and "c f = Some g"
  shows "add_file c p st =
           (st\<lparr>tmap := AList.update (- 1) [(hash_str (sha256 g), f # others)] (tmap st),
               hashed := hashed st @ [f]\<rparr>, Some (Cannot_open p))"
  using assms by (simp add: add_file_def Let_def lazy_hash_def fhash_def fsize_def)

lemma add_file_new_unopenable:
  assumes "c p = None" and "2 \<le> length (at (tmap st) (- 1))"
  shows "add_file c p st = (st, Some (Cannot_open p))"
proof -
  from assms(2) obtain x y xs where b: "at (tmap st) (- 1) = x # y # xs"
    by (cases "at (tmap st) (- 1)"; cases "tl (at (tmap st) (- 1))") auto
  with assms(1) at_Cons_update [OF b] show ?thesis
    by (simp add: add_file_def Let_def fhash_def fsize_def)
qed

text \<open>
  C3, as the code has it. A directory that cannot be iterated makes \<open>traverse\<close> throw, and
  a file that cannot be opened makes \<open>fhash\<close> throw; \<open>traverse\<close> catches neither. In the
  body for a regular file the exception of \<open>fhash\<close> comes from the first file of the bucket
  (line 115, after the bucket was cleared) or from the new file (line 117). The exception
  leaves the loop over the entries, every enclosing call of \<open>traverse\<close> and, since the \<open>try\<close>
  block of \<open>main\<close> encloses the loop over all roots, that loop as well: whatever entries
  follow in the directory and whatever roots follow on the command line are not visited.
  The map is the one built up to the exception; \<open>main\<close> prints the exception as a warning
  and runs the mutation phase on that map.
\<close>

theorem first_exception_ends_build:
  "traverse c path None st = (st, Some (Cannot_iterate path)) \<and>
   (c p = None \<longrightarrow> fhash c p st = (st, Inl (Cannot_open p))) \<and>
   (fsize c p \<noteq> 0 \<and> at (tmap st) (fsize c p) = [(h, f # files)] \<and> c f = None \<longrightarrow>
      add_file c p st
        = (st\<lparr>tmap := AList.update (fsize c p) [] (tmap st)\<rparr>, Some (Cannot_open f))) \<and>
   (c p = None \<and> at (tmap st) (- 1) = [(h, f # files)] \<and> c f = Some g \<longrightarrow>
      add_file c p st
        = (st\<lparr>tmap := AList.update (- 1) [(hash_str (sha256 g), f # files)] (tmap st),
              hashed := hashed st @ [f]\<rparr>, Some (Cannot_open p))) \<and>
   (c p = None \<and> 2 \<le> length (at (tmap st) (- 1)) \<longrightarrow>
      add_file c p st = (st, Some (Cannot_open p))) \<and>
   (add_file c (path @ [n]) st = (st', Some err) \<longrightarrow>
      traverse_loop c path (Regular n # rest) st = (st', Some err)) \<and>
   (traverse c (path @ [n]) dir st = (st', Some err) \<longrightarrow>
      traverse_loop c path (Directory n dir # rest) st = (st', Some err)) \<and>
   (traverse_loop c path es st = (st', Some err) \<longrightarrow>
      traverse_loop c path (es @ rest) st = (st', Some err)) \<and>
   (traverse c [root] (ls root) st = (st', Some err) \<longrightarrow>
      traverse_paths c ls (root # others) st = (st', Some err)) \<and>
   (traverse_paths c ls ps st = (st', Some err) \<longrightarrow>
      traverse_paths c ls (ps @ others) st = (st', Some err)) \<and>
   (build c ls paths = (bst, Some err) \<longrightarrow>
      main cfg paths c ls fs0 =
        (case dedup_map cfg (sort_key fst (tmap bst))
                \<lparr>fs = fs0, saved = 0, number = 0,
                 out = [Building_line, Warning_line err,
                        if remove cfg then Removing_line else Hard_linking_line]\<rparr> of
           (st, Some e) \<Rightarrow> (fs st, out st, Terminated e)
         | (st, None) \<Rightarrow> (fs st, out st @ [Done_line, Saved_line (saved st)], Exit 0)))"
  apply (intro conjI impI)
            apply simp
           apply (simp add: fhash_def)
          apply (simp add: add_file_first_unopenable)
         apply (elim conjE, erule (2) add_file_new_unopenable_lazy)
        apply (elim conjE, erule (1) add_file_new_unopenable)
       apply simp
      apply simp
     apply (simp add: traverse_loop_append)
    apply simp
   apply (simp add: traverse_paths_append)
  apply (simp add: main_def)
  done

theorem first_exception_ends_build_witness:
  "traverse (\<lambda>_. None) [''d''] None \<lparr>tmap = [], hashed = []\<rparr>
     = (\<lparr>tmap = [], hashed = []\<rparr>, Some (Cannot_iterate [''d''])) \<and>
   fhash (\<lambda>_. None) [''d'', ''u1''] \<lparr>tmap = [], hashed = []\<rparr>
     = (\<lparr>tmap = [], hashed = []\<rparr>, Inl (Cannot_open [''d'', ''u1''])) \<and>
   add_file (\<lambda>_. None) [''d'', ''u2''] \<lparr>tmap = [(- 1, [([], [[''d'', ''u1'']])])], hashed = []\<rparr>
     = (\<lparr>tmap = [(- 1, [])], hashed = []\<rparr>, Some (Cannot_open [''d'', ''u1''])) \<and>
   add_file one_byte_but_u [''d'', ''u'']
       \<lparr>tmap = [(- 1, [([], [[''d'', ''a'']])])], hashed = []\<rparr>
     = (\<lparr>tmap = [(- 1, [(hash_str 0, [[''d'', ''a'']])])], hashed = [[''d'', ''a'']]\<rparr>,
        Some (Cannot_open [''d'', ''u''])) \<and>
   add_file one_byte_but_u [''d'', ''u'']
       \<lparr>tmap = [(- 1, [(''x'', [[''d'', ''a'']]), (''y'', [[''d'', ''b'']])])], hashed = []\<rparr>
     = (\<lparr>tmap = [(- 1, [(''x'', [[''d'', ''a'']]), (''y'', [[''d'', ''b'']])])], hashed = []\<rparr>,
        Some (Cannot_open [''d'', ''u''])) \<and>
   traverse_loop (\<lambda>_. None) [''d''] [Regular ''u2'', Regular ''a'']
       \<lparr>tmap = [(- 1, [([], [[''d'', ''u1'']])])], hashed = []\<rparr>
     = (\<lparr>tmap = [(- 1, [])], hashed = []\<rparr>, Some (Cannot_open [''d'', ''u1''])) \<and>
   traverse_loop (\<lambda>_. None) [''d''] [Directory ''s'' None, Regular ''a'']
       \<lparr>tmap = [], hashed = []\<rparr>
     = (\<lparr>tmap = [], hashed = []\<rparr>, Some (Cannot_iterate [''d'', ''s''])) \<and>
   traverse_loop (\<lambda>_. None) [''d''] ([Regular ''u1'', Regular ''u2''] @ [Regular ''a''])
       \<lparr>tmap = [], hashed = []\<rparr>
     = (\<lparr>tmap = [(- 1, [])], hashed = []\<rparr>, Some (Cannot_open [''d'', ''u1''])) \<and>
   traverse_paths (\<lambda>_. None) (\<lambda>_. Some [Regular ''u1'', Regular ''u2'']) ([''d''] @ [''d2''])
       \<lparr>tmap = [], hashed = []\<rparr>
     = (\<lparr>tmap = [(- 1, [])], hashed = []\<rparr>, Some (Cannot_open [''d'', ''u1''])) \<and>
   build (\<lambda>_. None) (\<lambda>_. Some [Regular ''u1'', Regular ''u2'']) [''d'', ''d2'']
     = (\<lparr>tmap = [(- 1, [])], hashed = []\<rparr>, Some (Cannot_open [''d'', ''u1''])) \<and>
   main \<lparr>keep = False, pretend = False, remove = False\<rparr> [''d'', ''d2''] (\<lambda>_. None)
       (\<lambda>_. Some [Regular ''u1'', Regular ''u2'']) fs_ab
     = (fs_ab, [Building_line, Warning_line (Cannot_open [''d'', ''u1'']), Hard_linking_line,
                Done_line, Saved_line 0], Exit 0)"
proof -
  let ?st0 = "\<lparr>tmap = [], hashed = []\<rparr>"
  let ?st1 = "\<lparr>tmap = [(- 1, [([], [[''d'', ''u1'']])])], hashed = []\<rparr>"
  let ?st2 = "\<lparr>tmap = [(- 1, [])], hashed = []\<rparr>"
  let ?ls = "\<lambda>_ :: string. Some [Regular ''u1'', Regular ''u2'']"
  let ?cfg = "\<lparr>keep = False, pretend = False, remove = False\<rparr>"
  have e1: "traverse_loop (\<lambda>_. None) [''d''] [Regular ''u1'', Regular ''u2''] ?st0
      = (?st2, Some (Cannot_open [''d'', ''u1'']))"
    by (simp add: build_simps)
  have e2: "traverse_paths (\<lambda>_. None) ?ls [''d''] ?st0 = (?st2, Some (Cannot_open [''d'', ''u1'']))"
    by (simp add: build_simps)
  have e3: "build (\<lambda>_. None) ?ls [''d'', ''d2''] = (?st2, Some (Cannot_open [''d'', ''u1'']))"
    by (simp add: build_simps)
  note a = first_exception_ends_build [where c = "\<lambda>_. None" and path = "[''d'']" and st = ?st0
      and p = "[''d'', ''u1'']" and st' = ?st2
      and err = "Cannot_open [''d'', ''u1'']" and rest = "[Regular ''a'']"
      and es = "[Regular ''u1'', Regular ''u2'']" and root = "''d''" and ls = ?ls
      and others = "[''d2'']" and ps = "[''d'']" and paths = "[''d'', ''d2'']" and bst = ?st2
      and cfg = ?cfg and ?fs0.0 = fs_ab]
  note b = first_exception_ends_build [where c = "\<lambda>_. None" and st = ?st1
      and p = "[''d'', ''u2'']" and h = "[]" and f = "[''d'', ''u1'']" and files = "[]"
      and path = "[''d'']" and n = "''u2''" and st' = ?st2
      and err = "Cannot_open [''d'', ''u1'']" and rest = "[Regular ''a'']"]
  note i = first_exception_ends_build [where c = "\<lambda>_. None" and st = ?st0
      and path = "[''d'']" and n = "''s''" and dir = None and st' = ?st0
      and err = "Cannot_iterate [''d'', ''s'']" and rest = "[Regular ''a'']"]
  note c = first_exception_ends_build [where c = one_byte_but_u
      and st = "\<lparr>tmap = [(- 1, [([], [[''d'', ''a'']])])], hashed = []\<rparr>"
      and p = "[''d'', ''u'']" and h = "[]" and f = "[''d'', ''a'']" and files = "[]"
      and g = "\<lparr>bytes = 1, sha256 = 0\<rparr>"]
  note d = first_exception_ends_build [where c = one_byte_but_u
      and st = "\<lparr>tmap = [(- 1, [(''x'', [[''d'', ''a'']]), (''y'', [[''d'', ''b'']])])], hashed = []\<rparr>"
      and p = "[''d'', ''u'']"]
  show ?thesis
    using a b c d i e1 e2 e3
    by (simp add: fsize_def at_def one_byte_but_u_def build_def)
qed

text \<open>
  C3 as stated fails. The root \<open>d1\<close> cannot be iterated, the root \<open>d2\<close> holds two equal
  files: the build of \<open>d1 d2\<close> ends at \<open>d1\<close> with an empty map, although \<open>d2\<close> alone
  gives a group. And in \<open>d\<close> with \<open>u1\<close> and \<open>u2\<close>, which cannot be opened, followed by the
  equal files \<open>a\<close> and \<open>b\<close>, the build ends at \<open>u2\<close> (hashing \<open>u1\<close> throws) and \<open>a\<close>
  and \<open>b\<close> are not visited, although without \<open>u1\<close> and \<open>u2\<close> they form a group.
\<close>

theorem remaining_roots_not_traversed:
  "build (\<lambda>_. Some \<lparr>bytes = 1, sha256 = 0\<rparr>)
         (\<lambda>p. if p = ''d1'' then None else Some [Regular ''a'', Regular ''b'']) [''d1'', ''d2'']
   = (\<lparr>tmap = [], hashed = []\<rparr>, Some (Cannot_iterate [''d1'']))
   \<and> build (\<lambda>_. Some \<lparr>bytes = 1, sha256 = 0\<rparr>)
         (\<lambda>p. if p = ''d1'' then None else Some [Regular ''a'', Regular ''b'']) [''d2'']
   = (\<lparr>tmap = [(1, [(hash_str 0, [[''d2'', ''a''], [''d2'', ''b'']])])],
       hashed = [[''d2'', ''a''], [''d2'', ''b'']]\<rparr>, None)
   \<and> build but_u1_u2
         (\<lambda>_. Some [Regular ''u1'', Regular ''u2'', Regular ''a'', Regular ''b'']) [''d'']
   = (\<lparr>tmap = [(- 1, [])], hashed = []\<rparr>, Some (Cannot_open [''d'', ''u1'']))
   \<and> build but_u1_u2 (\<lambda>_. Some [Regular ''a'', Regular ''b'']) [''d'']
   = (\<lparr>tmap = [(1, [(hash_str 0, [[''d'', ''a''], [''d'', ''b'']])])],
       hashed = [[''d'', ''a''], [''d'', ''b'']]\<rparr>, None)"
  by (simp add: build_simps but_u1_u2_def)

subsection \<open>Files that cannot be opened\<close>

text \<open>
  C10, as the code has it: for a file whose stream cannot be opened, \<open>fsize\<close> is
  \<open>2^64 - 1\<close>, which is not 0, so the file passes the size test. When the bucket of that size
  is still empty the file is stored in it under the unhashed sentinel, without an exception.
  When the bucket is not empty, \<open>add_file\<close> goes on to hash, and ends with an exception;
  no vector of the bucket has received the file.
\<close>

theorem unreadable_file_size_and_bucket:
  "c p = None \<Longrightarrow>
     unat (fsize c p) = 2 ^ 64 - 1 \<and> fsize c p \<noteq> 0 \<and>
     (at (tmap st) (- 1) = [] \<longrightarrow>
        add_file c p st = (st\<lparr>tmap := AList.update (- 1) [([], [p])] (tmap st)\<rparr>, None)) \<and>
     (at (tmap st) (- 1) \<noteq> [] \<longrightarrow>
        snd (add_file c p st) \<noteq> None \<and>
        snd ` set (at (tmap (fst (add_file c p st))) (- 1)) \<subseteq> snd ` set (at (tmap st) (- 1)))"
  apply (intro conjI impI)
      apply (simp add: fsize_def unsigned_minus_1_eq_mask mask_eq_exp_minus_1)
     apply (simp add: fsize_def)
    apply (simp add: add_file_def fsize_def emplace_back_def Let_def at_def)
   apply (auto simp add: add_file_def fsize_def Let_def lazy_hash_def fhash_def
      split: list.splits prod.splits option.splits sum.splits)[1]
  apply (cases "at (tmap st) (- 1)")
   apply (auto simp add: add_file_def fsize_def Let_def lazy_hash_def fhash_def at_update
      split: list.splits prod.splits option.splits sum.splits if_splits)
  done

theorem unreadable_file_size_and_bucket_witness:
  "(\<lambda>_. None) [''d'', ''a''] = (None :: file_data option) \<and>
   unat (fsize (\<lambda>_. None) [''d'', ''a'']) = 2 ^ 64 - 1 \<and>
   at (tmap \<lparr>tmap = [], hashed = []\<rparr>) (- 1) = [] \<and>
   add_file (\<lambda>_. None) [''d'', ''a''] \<lparr>tmap = [], hashed = []\<rparr>
     = (\<lparr>tmap = [(- 1, [([], [[''d'', ''a'']])])], hashed = []\<rparr>, None) \<and>
   at (tmap \<lparr>tmap = [(- 1, [([], [[''d'', ''a'']])])], hashed = []\<rparr>) (- 1) \<noteq> [] \<and>
   snd (add_file (\<lambda>_. None) [''d'', ''b'']
          \<lparr>tmap = [(- 1, [([], [[''d'', ''a'']])])], hashed = []\<rparr>) \<noteq> None"
  using unreadable_file_size_and_bucket [of "\<lambda>_. None" "[''d'', ''a'']"
      "\<lparr>tmap = [], hashed = []\<rparr>"]
    unreadable_file_size_and_bucket [of "\<lambda>_. None" "[''d'', ''b'']"
      "\<lparr>tmap = [(- 1, [([], [[''d'', ''a'']])])], hashed = []\<rparr>"]
  by (simp add: at_def)

text \<open>
  C10 as stated fails for the second file that cannot be opened: in a directory with two such
  files, hashing the first one throws when the second arrives; the bucket of size \<open>2^64 - 1\<close>
  has been cleared, and neither file is in it.
\<close>

theorem second_unreadable_file_not_inserted:
  "build (\<lambda>_. None) (\<lambda>_. Some [Regular ''a'', Regular ''b'']) [''d'']
   = (\<lparr>tmap = [(- 1, [])], hashed = []\<rparr>, Some (Cannot_open [''d'', ''a'']))"
  by (simp add: build_simps)

subsection \<open>The digest in hexadecimal\<close>








subsection \<open>Every bucket holds files of its size, every hashed key files of its digest\<close>

lemma hash_str_not_Nil: "hash_str w \<noteq> []"
  by (simp add: hash_str_def digest_bytes_def upt_rec hex2_def)

lemma set_update_subset: "set (AList.update k v al) \<subseteq> insert (k, v) (set al)"
  by (induction al) auto

lemma at_in_set: "at m k \<noteq> [] \<Longrightarrow> (k, at m k) \<in> set m"
  by (auto simp: at_def split: option.splits dest: map_of_SomeD)

lemma at_in_set': "map_of m k = Some v \<Longrightarrow> at m k = v"
  by (simp add: at_def)

lemma map_ok_update: "map_ok c m \<Longrightarrow> bucket_ok c s b \<Longrightarrow> map_ok c (AList.update s b m)"
  using set_update_subset [of s b m] by (auto simp: map_ok_def)

lemma map_ok_at: "map_ok c m \<Longrightarrow> s \<noteq> 0 \<Longrightarrow> bucket_ok c s (at m s)"
proof -
  assume ok: "map_ok c m" and s0: "s \<noteq> 0"
  show ?thesis
  proof (cases "at m s = []")
    case True
    with s0 show ?thesis by (simp add: bucket_ok_def)
  next
    case False
    then have "(s, at m s) \<in> set m" by (rule at_in_set)
    with ok show ?thesis by (force simp: map_ok_def)
  qed
qed

lemma bucket_ok_Nil: "s \<noteq> 0 \<Longrightarrow> bucket_ok c s []"
  by (simp add: bucket_ok_def)

lemma bucket_ok_first: "fsize c p = s \<Longrightarrow> s \<noteq> 0 \<Longrightarrow> bucket_ok c s (emplace_back [] p [])"
  by (simp add: bucket_ok_def emplace_back_def at_def)

lemma fhash_Inr: "fhash c p st = (st', Inr h) \<Longrightarrow> hashed_as c h p \<and> h \<noteq> [] \<and> tmap st' = tmap st"
  by (auto simp: fhash_def hashed_as_def hash_str_not_Nil split: option.splits)

lemma fhash_Inl: "fhash c p st = (st', Inl e) \<Longrightarrow> st' = st"
  by (auto simp: fhash_def split: option.splits)

lemma hashed_as_fun: "hashed_as c h p \<Longrightarrow> hashed_as c h' p \<Longrightarrow> h = h'"
  by (auto simp: hashed_as_def split: option.splits)

lemma bucket_ok_no_sentinel:
  "bucket_ok c s b \<Longrightarrow> length b \<noteq> 1 \<Longrightarrow> (h, fl) \<in> set b \<Longrightarrow> h \<noteq> []"
  by (auto simp: bucket_ok_def)

lemma bucket_ok_emplace:
  assumes ok: "bucket_ok c s b" and ns: "\<forall>(k, fl) \<in> set b. k \<noteq> []"
    and h: "hashed_as c h p" "h \<noteq> []" and sz: "fsize c p = s"
  shows "bucket_ok c s (emplace_back h p b)"
proof -
  have at: "\<forall>q \<in> set (at b h). fsize c q = s \<and> hashed_as c h q"
    using ok h(2) by (cases "at b h = []") (auto simp: bucket_ok_def dest!: at_in_set)
  have sub: "set (emplace_back h p b) \<subseteq> insert (h, at b h @ [p]) (set b)"
    unfolding emplace_back_def by (rule set_update_subset)
  show ?thesis
    unfolding bucket_ok_def
  proof (intro conjI ballI, goal_cases)
    case 1
    show ?case using ok by (simp add: bucket_ok_def)
  next
    case (2 x)
    then have "x = (h, at b h @ [p]) \<or> x \<in> set b" using sub by auto
    then show ?case
    proof
      assume "x = (h, at b h @ [p])"
      then show ?thesis using at h sz by auto
    next
      assume "x \<in> set b"
      then show ?thesis using ok ns by (auto simp: bucket_ok_def)
    qed
  qed
qed

lemma lazy_hash_ok:
  assumes ok: "bucket_ok c s b" and len: "length b = 1"
    and res: "lazy_hash c b st = (b1, st1, r)"
  shows "bucket_ok c s b1 \<and> tmap st1 = tmap st \<and> (r = None \<longrightarrow> (\<forall>(k, fl) \<in> set b1. k \<noteq> []))"
proof -
  from len obtain k fl where b: "b = [(k, fl)]"
    by (cases b) (auto simp: length_Suc_conv)
  from ok b have fl: "fl \<noteq> []" and s0: "s \<noteq> 0"
    and mem: "\<forall>p \<in> set fl. fsize c p = s \<and> (k \<noteq> [] \<longrightarrow> hashed_as c k p)"
    and sent: "k = [] \<longrightarrow> length fl = 1"
    by (auto simp: bucket_ok_def)
  from fl obtain f rest where f: "fl = f # rest" by (cases fl) auto
  show ?thesis
  proof (cases "fhash c f st")
    case (Pair st' x)
    show ?thesis
    proof (cases x)
      case (Inl e)
      with Pair res b f s0 show ?thesis
        by (auto simp: lazy_hash_def bucket_ok_def dest: fhash_Inl)
    next
      case (Inr h)
      with Pair have hh: "hashed_as c h f" "h \<noteq> []" "tmap st' = tmap st"
        by (auto dest: fhash_Inr)
      have all: "\<forall>p \<in> set fl. hashed_as c h p"
      proof (cases "k = []")
        case True
        with sent f hh show ?thesis by auto
      next
        case False
        with mem f hh have "h = k" by (auto dest: hashed_as_fun)
        with mem False show ?thesis by auto
      qed
      from Pair Inr res b f have "b1 = [(h, fl)]" "st1 = st'" "r = None"
        by (auto simp: lazy_hash_def)
      with hh all mem fl s0 show ?thesis
        by (auto simp: bucket_ok_def)
    qed
  qed
qed

lemma add_file_ok:
  assumes ok: "map_ok c (tmap st)" and res: "add_file c p st = (st', r)"
  shows "map_ok c (tmap st')"
proof (cases "fsize c p = 0")
  case True
  with res ok show ?thesis by (simp add: add_file_def)
next
  case s0: False
  let ?s = "fsize c p"
  let ?b = "at (tmap st) ?s"
  have bok: "bucket_ok c ?s ?b" using ok s0 by (rule map_ok_at)
  show ?thesis
  proof (cases "length ?b = 0")
    case True
    with res s0 have "tmap st' = AList.update ?s (emplace_back [] p []) (tmap st)"
      by (auto simp: add_file_def Let_def)
    with ok s0 show ?thesis by (simp add: map_ok_update bucket_ok_first)
  next
    case ne: False
    obtain b1 st1 r1 where lh:
      "(if length ?b = 1 then lazy_hash c ?b st else (?b, st, None)) = (b1, st1, r1)"
      by (metis prod_cases3)
    have b1: "bucket_ok c ?s b1 \<and> tmap st1 = tmap st \<and> (r1 = None \<longrightarrow> (\<forall>(k, fl) \<in> set b1. k \<noteq> []))"
    proof (cases "length ?b = 1")
      case True
      with lh bok show ?thesis by (auto dest: lazy_hash_ok)
    next
      case False
      with lh bok show ?thesis by (auto dest: bucket_ok_no_sentinel)
    qed
    show ?thesis
    proof (cases r1)
      case (Some e)
      with res s0 ne lh have "tmap st' = AList.update ?s b1 (tmap st1)"
        by (auto simp: add_file_def Let_def)
      with b1 ok show ?thesis by (simp add: map_ok_update)
    next
      case None
      show ?thesis
      proof (cases "fhash c p st1")
        case (Pair st2 x)
        show ?thesis
        proof (cases x)
          case (Inl e)
          with Pair None res s0 ne lh have "tmap st' = AList.update ?s b1 (tmap st1)"
            by (auto simp: add_file_def Let_def dest: fhash_Inl)
          with b1 ok show ?thesis by (simp add: map_ok_update)
        next
          case (Inr h)
          with Pair have hh: "hashed_as c h p" "h \<noteq> []" "tmap st2 = tmap st1"
            by (auto dest: fhash_Inr)
          from Pair Inr None res s0 ne lh
          have "tmap st' = AList.update ?s (emplace_back h p b1) (tmap st2)"
            by (auto simp: add_file_def Let_def)
          moreover have "bucket_ok c ?s (emplace_back h p b1)"
            using b1 None hh by (intro bucket_ok_emplace) auto
          ultimately show ?thesis using b1 ok hh by (simp add: map_ok_update)
        qed
      qed
    qed
  qed
qed

lemma traverse_ok:
  "map_ok c (tmap st) \<Longrightarrow> traverse c path dir st = (st', r) \<Longrightarrow> map_ok c (tmap st')"
  "map_ok c (tmap st) \<Longrightarrow> traverse_loop c path es st = (st', r) \<Longrightarrow> map_ok c (tmap st')"
  "map_ok c (tmap st) \<Longrightarrow> traverse_entry c path e st = (st', r) \<Longrightarrow> map_ok c (tmap st')"
proof (induction c path dir st and c path es st and c path e st
    arbitrary: st' r and st' r and st' r rule: traverse_traverse_loop_traverse_entry.induct)
  case (4 c path e es st)
  then show ?case
    by (auto split: prod.splits option.splits)
next
  case (8 c path n st)
  then show ?case by (auto dest: add_file_ok)
qed auto

lemma traverse_paths_ok:
  "map_ok c (tmap st) \<Longrightarrow> traverse_paths c ls ps st = (st', r) \<Longrightarrow> map_ok c (tmap st')"
proof (induction ps arbitrary: st)
  case Nil
  then show ?case by simp
next
  case (Cons p ps)
  then show ?case
    by (auto split: prod.splits option.splits dest: traverse_ok(1))
qed

lemma build_ok: "build c ls paths = (st, r) \<Longrightarrow> map_ok c (tmap st)"
  using traverse_paths_ok [of c "\<lparr>tmap = [], hashed = []\<rparr>"]
  by (simp add: build_def map_ok_def)

section \<open>Properties of the mutation phase\<close>

lemmas mutation_simps = main_def dedup_group_def dedup_file_def relink_def prune_def
  compare_file_attributes_def stat_def lookup_def reachable_def dir_entry_def is_directory_def
  parent_path_def directory_iterator_def std_remove_def create_hard_link_def chown_def chmod_def
  record_op_def

lemmas example_simps = one_byte_def one_mib_def one_byte_but_u_def two_digests_def but_u1_u2_def
  ls_x_def ls_ab_def ls_abc_def ls_xyz_def plain_inodes_def fs_x_def fs_ab_def fs_ab_locked_def
  fs_nested_def fs_dotdot_def resolve_dots_def

subsection \<open>The attribute comparison\<close>

text \<open>
  C4: \<open>compare_file_attributes\<close> is true exactly when both paths can be examined by \<open>stat\<close>
  and agree in owner, group, mode and device; when \<open>stat\<close> fails on either path it is false
  (it is a total function to \<open>bool\<close>: nothing is thrown). For a pair on which it is false the
  loop body changes neither the file system (no call is even attempted: the trace is part of
  \<open>fs\<close>) nor the bytes saved, throws nothing, and prints the mismatch once.
\<close>

theorem compare_file_attributes_gate:
  "(compare_file_attributes fsys a b \<longleftrightarrow>
      (\<exists>s1 s2. stat fsys a = Some s1 \<and> stat fsys b = Some s2 \<and> st_uid s1 = st_uid s2 \<and>
         st_gid s1 = st_gid s2 \<and> st_mode s1 = st_mode s2 \<and> st_dev s1 = st_dev s2)) \<and>
   (stat fsys a = None \<or> stat fsys b = None \<longrightarrow> \<not> compare_file_attributes fsys a b) \<and>
   (\<not> compare_file_attributes (fs st) base file \<longrightarrow>
      dedup_file cfg sz base file st
        = (st\<lparr>out := out st @ [File_line file, Mismatch_line base file]\<rparr>, None))"
  by (auto simp: compare_file_attributes_def dedup_file_def Let_def split: option.splits)

theorem compare_file_attributes_gate_witness:
  "stat fs_x [''d'', ''y''] = None \<and>
   \<not> compare_file_attributes fs_x [''d'', ''x''] [''d'', ''y''] \<and>
   compare_file_attributes fs_x [''d'', ''x''] [''d'', ''x''] \<and>
   \<not> compare_file_attributes fs_x [''d'', ''x''] [''d''] \<and>
   dedup_file \<lparr>keep = False, pretend = False, remove = False\<rparr> 1
       [''d'', ''x''] [''d''] \<lparr>fs = fs_x, saved = 0, number = 1, out = []\<rparr>
     = (\<lparr>fs = fs_x, saved = 0, number = 1,
         out = [File_line [''d''], Mismatch_line [''d'', ''x''] [''d'']]\<rparr>, None)"
  using compare_file_attributes_gate [of fs_x "[''d'', ''x'']" "[''d'', ''y'']"
      "\<lparr>fs = fs_x, saved = 0, number = 1, out = []\<rparr>" "[''d'', ''x'']" "[''d'']"
      "\<lparr>keep = False, pretend = False, remove = False\<rparr>" 1]
    compare_file_attributes_gate [of fs_x "[''d'', ''x'']" "[''d'', ''x'']"
      "\<lparr>fs = fs_x, saved = 0, number = 1, out = []\<rparr>" "[''d'', ''x'']" "[''d'']"
      "\<lparr>keep = False, pretend = False, remove = False\<rparr>" 1]
  by (simp add: compare_file_attributes_def stat_def lookup_def reachable_def dir_entry_def example_simps)

subsection \<open>Fatal errors\<close>

lemma std_remove_trace: "std_remove fsys p = (fs', ok) \<Longrightarrow> trace fs' = trace fsys @ [(Remove p, ok)]"
  by (auto simp: std_remove_def record_op_def split: if_splits)

lemma create_hard_link_trace:
  "create_hard_link fsys a b = (fs', ok) \<Longrightarrow> trace fs' = trace fsys @ [(Create_hard_link a b, ok)]"
  by (auto simp: create_hard_link_def record_op_def split: if_splits option.splits)

lemma chown_trace: "\<exists>ok. trace (chown fsys p u g) = trace fsys @ [(Chown p u g, ok)]"
  by (auto simp: chown_def record_op_def split: if_splits option.splits)

lemma chmod_trace: "\<exists>ok. trace (chmod fsys p m) = trace fsys @ [(Chmod p m, ok)]"
  by (auto simp: chmod_def record_op_def split: if_splits option.splits)

lemma all_ok_snoc: "all_ok (tr @ [(call, ok)]) \<longleftrightarrow> all_ok tr \<and> (fatal_op call \<longrightarrow> ok)"
  by (auto simp: all_ok_def)

lemma prune_good:
  assumes "all_ok (trace (fs st))" and "prune dir st = (st', r)"
  shows "good (trace (fs st')) r"
proof (cases "is_directory (fs st) dir \<and> directory_iterator (fs st) dir = []")
  case False
  with assms show ?thesis by (auto simp: prune_def good_def split: if_splits)
next
  case True
  obtain fs' ok where rm: "std_remove (fs st) dir = (fs', ok)" by (cases "std_remove (fs st) dir")
  then have tr: "trace fs' = trace (fs st) @ [(Remove dir, ok)]" by (rule std_remove_trace)
  from True rm assms(2) have "fs st' = fs'" and "r = (if ok then None else Some (Cannot_delete_directory dir))"
    by (auto simp: prune_def split: if_splits bool.splits)
  with tr assms(1) show ?thesis
    by (auto simp: good_def all_ok_snoc fatal_op_def raised_by_def)
qed

lemma relink_good:
  assumes ok: "all_ok (trace (fs st))" and res: "relink cfg base file st = (st', r)"
  shows "good (trace (fs st')) r"
proof -
  obtain fs1 ok1 where rm: "std_remove (fs st) file = (fs1, ok1)" by (cases "std_remove (fs st) file")
  then have tr1: "trace fs1 = trace (fs st) @ [(Remove file, ok1)]" by (rule std_remove_trace)
  show ?thesis
  proof (cases ok1)
    case False
    with rm res have "fs st' = fs1" "r = Some (Cannot_delete_file file)"
      by (auto simp: relink_def)
    with tr1 False ok show ?thesis
      by (auto simp: good_def fatal_op_def raised_by_def)
  next
    case True
    with tr1 ok have ok1: "all_ok (trace fs1)" by (simp add: all_ok_snoc)
    show ?thesis
    proof (cases "remove cfg")
      case rem: True
      show ?thesis
      proof (cases "keep cfg")
        case True
        with rem rm \<open>ok1\<close> res have "fs st' = fs1" "r = None" by (auto simp: relink_def)
        with ok1 show ?thesis by (simp add: good_def)
      next
        case False
        with rem rm \<open>ok1\<close> res have "prune (parent_path file) (st\<lparr>fs := fs1\<rparr>) = (st', r)"
          by (auto simp: relink_def)
        with ok1 show ?thesis by (intro prune_good [where st = "st\<lparr>fs := fs1\<rparr>"]) auto
      qed
    next
      case link: False
      obtain fs2 ok2 where hl: "create_hard_link fs1 base file = (fs2, ok2)"
        by (cases "create_hard_link fs1 base file")
      then have tr2: "trace fs2 = trace fs1 @ [(Create_hard_link base file, ok2)]"
        by (rule create_hard_link_trace)
      show ?thesis
      proof (cases ok2)
        case False
        with link rm \<open>ok1\<close> hl res have "fs st' = fs2" "r = Some (Cannot_create_hardlink base file)"
          by (auto simp: relink_def)
        with tr2 False ok1 show ?thesis
          by (auto simp: good_def fatal_op_def raised_by_def)
      next
        case True
        with tr2 ok1 have ok2: "all_ok (trace fs2)" by (simp add: all_ok_snoc)
        from True link rm \<open>ok1\<close> hl res have r: "r = None"
          and f: "fs st' = (case stat fs2 base of None \<Rightarrow> fs2
             | Some base_stat \<Rightarrow> chmod (chown fs2 file (st_uid base_stat) (st_gid base_stat))
                            file (st_mode base_stat))"
          by (auto simp: relink_def)
        have "all_ok (trace (fs st'))"
        proof (cases "stat fs2 base")
          case None
          with f ok2 show ?thesis by simp
        next
          case (Some bs)
          obtain o1 where "trace (chown fs2 file (st_uid bs) (st_gid bs))
              = trace fs2 @ [(Chown file (st_uid bs) (st_gid bs), o1)]"
            using chown_trace by blast
          moreover obtain o2 where "trace (chmod (chown fs2 file (st_uid bs) (st_gid bs)) file (st_mode bs))
              = trace (chown fs2 file (st_uid bs) (st_gid bs)) @ [(Chmod file (st_mode bs), o2)]"
            using chmod_trace by blast
          ultimately show ?thesis using f Some ok2
            by (auto simp: all_ok_def fatal_op_def)
        qed
        with r show ?thesis by (simp add: good_def)
      qed
    qed
  qed
qed

lemma dedup_file_good:
  assumes ok: "all_ok (trace (fs st))" and res: "dedup_file cfg sz base file st = (st', r)"
  shows "good (trace (fs st')) r"
proof (cases "compare_file_attributes (fs st) base file \<and> \<not> pretend cfg")
  case False
  with res ok show ?thesis
    by (auto simp: dedup_file_def Let_def good_def split: if_splits)
next
  case True
  obtain st1 r1 where rl: "relink cfg base file (st\<lparr>out := out st @ [File_line file]\<rparr>) = (st1, r1)"
    by (cases "relink cfg base file (st\<lparr>out := out st @ [File_line file]\<rparr>)")
  with ok have g: "good (trace (fs st1)) r1"
    by (intro relink_good [where st = "st\<lparr>out := out st @ [File_line file]\<rparr>"]) auto
  from True rl res have "r = r1" "fs st' = fs st1"
    by (auto simp: dedup_file_def Let_def split: option.splits)
  with g show ?thesis by simp
qed

lemma good_None: "good tr None \<longleftrightarrow> all_ok tr"
  by (simp add: good_def)

lemma dedup_files_good:
  "all_ok (trace (fs st)) \<Longrightarrow> dedup_files cfg sz base files st = (st', r) \<Longrightarrow> good (trace (fs st')) r"
proof (induction files arbitrary: st)
  case Nil
  then show ?case by (simp add: good_def)
next
  case (Cons f files)
  obtain st1 r1 where d: "dedup_file cfg sz base f st = (st1, r1)"
    by (cases "dedup_file cfg sz base f st")
  with Cons.prems(1) have g: "good (trace (fs st1)) r1" by (rule dedup_file_good)
  show ?case
  proof (cases r1)
    case None
    with g have "all_ok (trace (fs st1))" by (simp add: good_None)
    moreover from None d Cons.prems(2) have "dedup_files cfg sz base files st1 = (st', r)" by simp
    ultimately show ?thesis by (rule Cons.IH)
  next
    case (Some e)
    with d Cons.prems(2) g show ?thesis by auto
  qed
qed

lemma dedup_group_good:
  "all_ok (trace (fs st)) \<Longrightarrow> dedup_group cfg sz file_names st = (st', r) \<Longrightarrow> good (trace (fs st')) r"
proof -
  assume ok: "all_ok (trace (fs st))" and res: "dedup_group cfg sz file_names st = (st', r)"
  show ?thesis
  proof (cases "\<exists>base f files. file_names = base # f # files")
    case True
    then obtain base f files where fn: "file_names = base # f # files" by blast
    let ?st = "st\<lparr>number := number st + 1, out := out st @ [Group_line (number st + 1) base]\<rparr>"
    from fn res have "dedup_files cfg sz base (f # files) ?st = (st', r)"
      by (simp add: dedup_group_def)
    moreover from ok have "all_ok (trace (fs ?st))" by simp
    ultimately show ?thesis by (rule dedup_files_good [rotated])
  next
    case False
    with res have "st' = st" "r = None"
      by (auto simp: dedup_group_def split: list.splits)
    with ok show ?thesis by (simp add: good_None)
  qed
qed

lemma dedup_bucket_good:
  "all_ok (trace (fs st)) \<Longrightarrow> dedup_bucket cfg sz b st = (st', r) \<Longrightarrow> good (trace (fs st')) r"
proof (induction b arbitrary: st)
  case Nil
  then show ?case by (simp add: good_def)
next
  case (Cons x b)
  obtain h file_names where x: "x = (h, file_names)" by (cases x)
  obtain st1 r1 where d: "dedup_group cfg sz file_names st = (st1, r1)"
    by (cases "dedup_group cfg sz file_names st")
  with Cons.prems(1) have g: "good (trace (fs st1)) r1" by (rule dedup_group_good)
  show ?case
  proof (cases r1)
    case None
    with g have "all_ok (trace (fs st1))" by (simp add: good_None)
    moreover from None d x Cons.prems(2) have "dedup_bucket cfg sz b st1 = (st', r)" by simp
    ultimately show ?thesis by (rule Cons.IH)
  next
    case (Some e)
    with d x Cons.prems(2) g show ?thesis by auto
  qed
qed

lemma dedup_map_good:
  "all_ok (trace (fs st)) \<Longrightarrow> dedup_map cfg m st = (st', r) \<Longrightarrow> good (trace (fs st')) r"
proof (induction m arbitrary: st)
  case Nil
  then show ?case by (simp add: good_def)
next
  case (Cons x m)
  obtain sz b where x: "x = (sz, b)" by (cases x)
  obtain st1 r1 where d: "dedup_bucket cfg sz (sort_key fst b) st = (st1, r1)"
    by (cases "dedup_bucket cfg sz (sort_key fst b) st")
  with Cons.prems(1) have g: "good (trace (fs st1)) r1" by (rule dedup_bucket_good)
  show ?case
  proof (cases r1)
    case None
    with g have "all_ok (trace (fs st1))" by (simp add: good_None)
    moreover from None d x Cons.prems(2) have "dedup_map cfg m st1 = (st', r)" by simp
    ultimately show ?thesis by (rule Cons.IH)
  next
    case (Some e)
    with d x Cons.prems(2) g show ?thesis by auto
  qed
qed

lemma good_Some_not_all_ok: "good tr (Some e) \<Longrightarrow> \<not> all_ok tr"
  by (auto simp: good_def all_ok_def)

text \<open>
  C6: \<open>main\<close> returns 0 exactly when no \<open>std::remove\<close> (of a duplicate or of an empty
  directory) and no \<open>create_hard_link\<close> has failed, whatever the build phase warned about.
  Otherwise the process is terminated by the exception of the failed call, and that call is
  the last one made: nothing is attempted after it, so what was done before stays done.
\<close>

theorem fatal_mutation_error_terminates:
  assumes "main cfg paths c ls fs0 = (fs', out', ex)" and "trace fs0 = []"
  shows "(ex = Exit 0 \<longleftrightarrow> (\<forall>(call, ok) \<in> set (trace fs'). fatal_op call \<longrightarrow> ok)) \<and>
         (ex \<noteq> Exit 0 \<longrightarrow>
            (\<exists>e call tr. ex = Terminated e \<and> trace fs' = tr @ [(call, False)] \<and>
               fatal_op call \<and> raised_by e call \<and>
               (\<forall>(call, ok) \<in> set tr. fatal_op call \<longrightarrow> ok)))"
proof -
  obtain bst w where b: "build c ls paths = (bst, w)" by (cases "build c ls paths")
  define st0 where "st0 = \<lparr>fs = fs0, saved = 0, number = 0,
                   out = [Building_line] @
                         (case w of None \<Rightarrow> [] | Some e \<Rightarrow> [Warning_line e]) @
                         [if remove cfg then Removing_line else Hard_linking_line]\<rparr>"
  obtain st r where d: "dedup_map cfg (sort_key fst (tmap bst)) st0 = (st, r)"
    by (cases "dedup_map cfg (sort_key fst (tmap bst)) st0")
  from assms(2) have "all_ok (trace (fs st0))" by (simp add: st0_def all_ok_def)
  then have g: "good (trace (fs st)) r" using d by (rule dedup_map_good)
  from assms(1) b d have res: "fs' = fs st" "ex = (case r of None \<Rightarrow> Exit 0 | Some e \<Rightarrow> Terminated e)"
    by (auto simp: main_def st0_def split: option.splits)
  show ?thesis
  proof (cases r)
    case None
    with g res show ?thesis by (simp add: good_def all_ok_def)
  next
    case (Some e)
    with g have "\<not> all_ok (trace (fs st))" by (auto dest: good_Some_not_all_ok)
    with g Some res show ?thesis
      by (simp add: good_def all_ok_def) blast
  qed
qed

theorem fatal_mutation_error_terminates_witness:
  "trace fs_ab_locked = [] \<and>
   (case main \<lparr>keep = False, pretend = False, remove = False\<rparr> [''d''] one_byte ls_ab
           fs_ab_locked of
      (fs', out', ex) \<Rightarrow> (names fs', trace fs', ex))
     = (names fs_ab_locked, [(Remove [''d'', ''b''], False)],
        Terminated (Cannot_delete_file [''d'', ''b''])) \<and>
   (case main \<lparr>keep = False, pretend = True, remove = False\<rparr> [''d''] one_byte ls_ab
           fs_ab_locked of
      (fs', out', ex) \<Rightarrow> (names fs', trace fs', ex))
     = (names fs_ab_locked, [], Exit 0)"
  using fatal_mutation_error_terminates [of "\<lparr>keep = False, pretend = False, remove = False\<rparr>"
      "[''d'']" one_byte ls_ab fs_ab_locked
      "fst (main \<lparr>keep = False, pretend = False, remove = False\<rparr> [''d''] one_byte ls_ab
              fs_ab_locked)"
      "fst (snd (main \<lparr>keep = False, pretend = False, remove = False\<rparr> [''d''] one_byte ls_ab
              fs_ab_locked))"
      "snd (snd (main \<lparr>keep = False, pretend = False, remove = False\<rparr> [''d''] one_byte ls_ab
              fs_ab_locked))"]
  by (simp add: build_simps mutation_simps example_simps)

subsection \<open>What the calls change\<close>

lemma chmod_keeps_type: "((x AND NOT 0xFFF) OR (m AND 0xFFF)) AND 0xF000 = x AND (0xF000 :: 32 word)"
proof -
  have "(NOT 0xFFF AND 0xF000 :: 32 word) = 0xF000" by simp
  moreover have "(0xFFF AND 0xF000 :: 32 word) = 0" by simp
  ultimately show ?thesis
    by (simp add: bit.conj_disj_distrib2 and.assoc)
qed

lemmas chmod_keeps_type_simp = chmod_keeps_type [simplified]

lemma chmod_same: "(x AND NOT k) OR (x AND k) = (x :: 32 word)"
  by (simp add: bit_eq_iff bit_simps) blast


lemma lookup_Some:
  "lookup fsys p = Some i \<longleftrightarrow> reachable fsys p \<and> map_of (names fsys) (resolve fsys p) = Some i"
  by (simp add: lookup_def)

lemma lookup_None:
  "lookup fsys p = None \<longleftrightarrow> \<not> reachable fsys p \<or> map_of (names fsys) (resolve fsys p) = None"
  by (simp add: lookup_def)

lemma reachable_eq:
  "through fs' = through fsys \<Longrightarrow> dir_entry fs' = dir_entry fsys \<Longrightarrow> reachable fs' = reachable fsys"
  by (intro ext) (simp add: reachable_def)


lemma dir_entry_delete:
  "names fs' = AList.delete k (names fsys) \<Longrightarrow> inodes fs' = inodes fsys \<Longrightarrow>
   dir_entry fs' e \<longleftrightarrow> e \<noteq> k \<and> dir_entry fsys e"
  by (simp add: dir_entry_def delete_conv' split: option.splits)

lemma dir_entry_delete_file:
  "names fs' = AList.delete k (names fsys) \<Longrightarrow> inodes fs' = inodes fsys \<Longrightarrow> \<not> dir_entry fsys k \<Longrightarrow>
   dir_entry fs' = dir_entry fsys"
  by (auto simp: fun_eq_iff dir_entry_delete)

lemma dir_entry_update_file:
  "names fs' = AList.update k i (names fsys) \<Longrightarrow> inodes fs' = inodes fsys \<Longrightarrow>
   \<not> dir_entry fsys k \<Longrightarrow> st_mode (inodes fsys i) AND 0xF000 \<noteq> 0x4000 \<Longrightarrow>
   dir_entry fs' = dir_entry fsys"
  by (intro ext) (auto simp: dir_entry_def update_conv' split: option.splits)

lemma dir_entry_same:
  "names fs' = names fsys \<Longrightarrow>
   (\<And>i. st_mode (inodes fs' i) AND 0xF000 = st_mode (inodes fsys i) AND 0xF000) \<Longrightarrow>
   dir_entry fs' = dir_entry fsys"
  by (intro ext) (auto simp: dir_entry_def split: option.splits)

lemma std_remove_frame:
  assumes "std_remove fsys p = (fs1, ok)"
  shows "inodes fs1 = inodes fsys" and "denied fs1 = denied fsys"
    and "resolve fs1 = resolve fsys" and "through fs1 = through fsys"
    and "names fs1 = (if ok then AList.delete (resolve fsys p) (names fsys) else names fsys)"
    and "ok \<longleftrightarrow> \<not> denied fsys (Remove p) \<and> lookup fsys p \<noteq> None \<and>
           \<not> (is_directory fsys p \<and> directory_iterator fsys p \<noteq> [])"
  using assms
  by (auto simp: std_remove_def record_op_def split: if_splits)


lemma create_hard_link_frame:
  assumes "create_hard_link fsys b f = (fs2, ok)"
  shows "inodes fs2 = inodes fsys" and "denied fs2 = denied fsys"
    and "resolve fs2 = resolve fsys" and "through fs2 = through fsys"
    and "ok \<Longrightarrow> \<exists>i. lookup fsys b = Some i \<and>
            names fs2 = AList.update (resolve fsys f) i (names fsys) \<and>
            \<not> is_directory fsys b \<and> reachable fsys f \<and>
            map_of (names fsys) (resolve fsys f) = None"
    and "\<not> ok \<Longrightarrow> names fs2 = names fsys"
  using assms
  by (auto simp: create_hard_link_def record_op_def split: if_splits option.splits)

lemma chown_frame:
  "names (chown fsys p u g) = names fsys"
  "resolve (chown fsys p u g) = resolve fsys"
  "through (chown fsys p u g) = through fsys"
  "denied (chown fsys p u g) = denied fsys"
  "dir_entry (chown fsys p u g) = dir_entry fsys"
proof -
  show n: "names (chown fsys p u g) = names fsys"
    and "resolve (chown fsys p u g) = resolve fsys"
    and "through (chown fsys p u g) = through fsys"
    and "denied (chown fsys p u g) = denied fsys"
    by (auto simp: chown_def record_op_def split: option.splits)
  show "dir_entry (chown fsys p u g) = dir_entry fsys"
    using n by (rule dir_entry_same) (auto simp: chown_def record_op_def split: option.splits)
qed

lemma chmod_frame:
  "names (chmod fsys p m) = names fsys"
  "resolve (chmod fsys p m) = resolve fsys"
  "through (chmod fsys p m) = through fsys"
  "denied (chmod fsys p m) = denied fsys"
  "dir_entry (chmod fsys p m) = dir_entry fsys"
proof -
  show n: "names (chmod fsys p m) = names fsys"
    and "resolve (chmod fsys p m) = resolve fsys"
    and "through (chmod fsys p m) = through fsys"
    and "denied (chmod fsys p m) = denied fsys"
    by (auto simp: chmod_def record_op_def split: option.splits)
  show "dir_entry (chmod fsys p m) = dir_entry fsys"
    using n
    by (rule dir_entry_same)
      (auto simp: chmod_def record_op_def chmod_keeps_type_simp split: option.splits)
qed

lemma lookup_eq:
  "names fs' = names fsys \<Longrightarrow> resolve fs' = resolve fsys \<Longrightarrow> through fs' = through fsys \<Longrightarrow>
   dir_entry fs' = dir_entry fsys \<Longrightarrow> lookup fs' = lookup fsys"
  using reachable_eq [of fs' fsys] by (intro ext) (simp add: lookup_def)

lemma chown_lookup: "lookup (chown fsys p u g) = lookup fsys"
  by (rule lookup_eq) (simp_all add: chown_frame)

lemma chmod_lookup: "lookup (chmod fsys p m) = lookup fsys"
  by (rule lookup_eq) (simp_all add: chmod_frame)



subsection \<open>Pruning\<close>




subsection \<open>The base of a group\<close>

text \<open>
  C8 (in hardlink mode the base is never deleted). With the same root given twice,
  \<open>hrdups d d\<close>, where \<open>d\<close> holds one file \<open>x\<close>, the path \<open>d/x\<close> is found twice and forms
  a group with itself. The duplicate that is removed is the base: \<open>std::remove\<close> succeeds,
  \<open>create_hard_link\<close> then fails because its target is gone, and the run is terminated with
  \<open>d/x\<close> deleted.
\<close>

theorem same_root_twice_deletes_base:
  "(case main \<lparr>keep = False, pretend = False, remove = False\<rparr> [''d'', ''d''] one_byte ls_x
           fs_x of
      (fs', out', ex) \<Rightarrow> (names fs', trace fs', out', ex))
   = ([([''d''], 1)],
      [(Remove [''d'', ''x''], True), (Create_hard_link [''d'', ''x''] [''d'', ''x''], False)],
      [Building_line, Hard_linking_line, Group_line 1 [''d'', ''x''], File_line [''d'', ''x'']],
      Terminated (Cannot_create_hardlink [''d'', ''x''] [''d'', ''x'']))"
  by (simp add: build_simps mutation_simps example_simps)

text \<open>
  The same happens when the file is found under two paths: \<open>hrdups d ./d\<close> removes
  \<open>./d/x\<close>, which is the base \<open>d/x\<close>.
\<close>

lemma other_spelling_deletes_base:
  "(case main \<lparr>keep = False, pretend = False, remove = False\<rparr> [''d'', ''./d''] one_byte ls_x
           fs_x of
      (fs', out', ex) \<Rightarrow> (names fs', trace fs', out', ex))
   = ([([''d''], 1)],
      [(Remove [''./d'', ''x''], True), (Create_hard_link [''d'', ''x''] [''./d'', ''x''], False)],
      [Building_line, Hard_linking_line, Group_line 1 [''d'', ''x''], File_line [''./d'', ''x'']],
      Terminated (Cannot_create_hardlink [''d'', ''x''] [''./d'', ''x'']))"
  by (simp add: build_simps mutation_simps example_simps)

subsection \<open>Dry run\<close>


lemma chown_same:
  "lookup fsys p = Some i \<Longrightarrow>
   inodes (chown fsys p (st_uid (inodes fsys i)) (st_gid (inodes fsys i))) = inodes fsys"
  by (auto simp: chown_def record_op_def)

lemma chmod_same_inodes:
  "lookup fsys p = Some i \<Longrightarrow> inodes (chmod fsys p (st_mode (inodes fsys i))) = inodes fsys"
  by (auto simp: chmod_def record_op_def chmod_same [where k = "0xFFF", simplified])

lemma prune_saved: "prune dir st = (st', r) \<Longrightarrow> saved st' = saved st"
  by (auto simp: prune_def split: if_splits prod.splits bool.splits)
























subsection \<open>The base, when the duplicate is another file\<close>

text \<open>
  What C8 says holds whenever the path of the duplicate leads to another entry than the path
  of the base: in hardlink mode the entry and the inode of the base stay as they are, and
  after the link was created the owner, group and mode of the base are applied to the path of
  the duplicate.
\<close>

lemma hardlink_keeps_other_base:
  assumes res: "relink cfg base f st = (st', r)" and link: "\<not> remove cfg"
    and nd: "\<not> dir_entry (fs st) (resolve (fs st) f)"
    and bf: "resolve (fs st) base \<noteq> resolve (fs st) f"
  shows "lookup (fs st') base = lookup (fs st) base \<and> inodes (fs st') = inodes (fs st) \<and>
         (r = None \<longrightarrow>
            lookup (fs st') f = lookup (fs st) base \<and>
            (\<exists>i ok1 ok2. lookup (fs st) base = Some i \<and>
               trace (fs st') = trace (fs st) @
                 [(Remove f, True), (Create_hard_link base f, True),
                  (Chown f (st_uid (inodes (fs st) i)) (st_gid (inodes (fs st) i)), ok1),
                  (Chmod f (st_mode (inodes (fs st) i)), ok2)]))"
proof -
  let ?E = "resolve (fs st) f"
  obtain fs1 ok1 where rm: "std_remove (fs st) f = (fs1, ok1)"
    by (cases "std_remove (fs st) f")
  note fr1 = std_remove_frame [OF rm]
  note t1 = std_remove_trace [OF rm]
  have d1: "dir_entry fs1 = dir_entry (fs st)"
  proof (cases ok1)
    case True
    with fr1(1,5) nd show ?thesis by (intro dir_entry_delete_file) auto
  next
    case False
    with fr1(1,5) show ?thesis by (intro dir_entry_same) auto
  qed
  have m1: "map_of (names fs1) (resolve (fs st) base) = map_of (names (fs st)) (resolve (fs st) base)"
    using fr1(5) bf by (simp add: delete_conv')
  have l1: "lookup fs1 base = lookup (fs st) base"
    using m1 fr1(3,4) d1 reachable_eq [of fs1 "fs st"] by (simp add: lookup_def)
  show ?thesis
  proof (cases ok1)
    case False
    with rm res have "fs st' = fs1" "r \<noteq> None" by (auto simp: relink_def)
    with fr1(1) l1 show ?thesis by auto
  next
    case ok1: True
    obtain fs2 ok2 where hl: "create_hard_link fs1 base f = (fs2, ok2)"
      by (cases "create_hard_link fs1 base f")
    note fr2 = create_hard_link_frame [OF hl]
    note t2 = create_hard_link_trace [OF hl]
    show ?thesis
    proof (cases ok2)
      case False
      with rm ok1 hl res link have "fs st' = fs2" "r \<noteq> None" by (auto simp: relink_def)
      moreover from False fr2(1,6) have "dir_entry fs2 = dir_entry fs1" by (intro dir_entry_same) auto
      with fr2(3,4) fr2(6) [OF False] have "lookup fs2 = lookup fs1" by (intro lookup_eq) auto
      ultimately show ?thesis using fr1(1) fr2(1) l1 by auto
    next
      case ok2: True
      from fr2(5) [OF ok2] obtain i where i: "lookup fs1 base = Some i"
        and n2: "names fs2 = AList.update (resolve fs1 f) i (names fs1)"
        and nb: "\<not> is_directory fs1 base" and rf: "reachable fs1 f" by blast
      from i nb have ti: "st_mode (inodes fs1 i) AND 0xF000 \<noteq> 0x4000"
        by (auto simp: is_directory_def stat_def)
      from nd d1 fr1(3) have "\<not> dir_entry fs1 (resolve fs1 f)" by simp
      with n2 fr2(1) ti have d2: "dir_entry fs2 = dir_entry fs1"
        by (intro dir_entry_update_file) auto
      with fr2(4) have r2: "reachable fs2 = reachable fs1" by (intro reachable_eq) auto
      from i have "map_of (names fs2) (resolve fs2 base) = Some i"
        using n2 fr2(3) by (auto simp: lookup_def update_conv' split: if_splits)
      moreover from i have "reachable fs1 base" by (auto simp: lookup_def split: if_splits)
      ultimately have lb: "lookup fs2 base = Some i" using r2 by (simp add: lookup_def)
      have lf: "lookup fs2 f = Some i"
        using n2 fr2(3) rf r2 by (simp add: lookup_def update_conv')
      from lb have sb: "stat fs2 base = Some (inodes fs2 i)" by (simp add: stat_def)
      let ?c = "chown fs2 f (st_uid (inodes fs2 i)) (st_gid (inodes fs2 i))"
      from res rm ok1 hl ok2 link sb
      have st': "fs st' = chmod ?c f (st_mode (inodes fs2 i))" and r: "r = None"
        by (auto simp: relink_def)
      have ci: "inodes ?c = inodes fs2" using lf by (rule chown_same)
      have "lookup ?c f = Some i" using lf by (simp add: chown_lookup)
      then have "inodes (chmod ?c f (st_mode (inodes ?c i))) = inodes ?c"
        by (rule chmod_same_inodes)
      with ci st' fr1(1) fr2(1) have ino: "inodes (fs st') = inodes (fs st)" by simp
      have look: "lookup (fs st') = lookup fs2"
        using st' by (simp add: chown_lookup chmod_lookup)
      obtain o1 where c1: "trace ?c = trace fs2 @ [(Chown f (st_uid (inodes fs2 i)) (st_gid (inodes fs2 i)), o1)]"
        using chown_trace by blast
      obtain o2 where c2: "trace (chmod ?c f (st_mode (inodes fs2 i)))
          = trace ?c @ [(Chmod f (st_mode (inodes fs2 i)), o2)]"
        using chmod_trace by blast
      from i l1 have bi: "lookup (fs st) base = Some i" by simp
      from c1 c2 t1 t2 st' ok1 ok2 fr1(1) fr2(1)
      have "trace (fs st') = trace (fs st) @
                 [(Remove f, True), (Create_hard_link base f, True),
                  (Chown f (st_uid (inodes (fs st) i)) (st_gid (inodes (fs st) i)), o1),
                  (Chmod f (st_mode (inodes (fs st) i)), o2)]"
        by simp
      with ino look lb lf bi r show ?thesis by auto
    qed
  qed
qed

section \<open>The two grouping strategies\<close>

lemma run_append:
  "run step (xs @ ys) st =
     (case run step xs st of (st', Some err) \<Rightarrow> (st', Some err) | (st', None) \<Rightarrow> run step ys st')"
  by (induction step xs st rule: run.induct) (auto split: prod.splits option.splits)

lemma traverse_run:
  "traverse c path dir st = run (\<lambda>d p. add_file c p) (walk path dir) st"
  "traverse_loop c path es st = run (\<lambda>d p. add_file c p) (walk_loop path es) st"
  "traverse_entry c path e st = run (\<lambda>d p. add_file c p) (walk_entry path e) st"
  by (induction c path dir st and c path es st and c path e st
      rule: traverse_traverse_loop_traverse_entry.induct)
    (auto simp: run_append split: prod.splits option.splits)




lemma fhash_readable:
  "c p = Some f \<Longrightarrow> fhash c p st = (st\<lparr>hashed := hashed st @ [p]\<rparr>, Inr (hkey c p))"
  by (simp add: fhash_def hkey_def)

lemma hkey_not_Nil: "c p = Some f \<Longrightarrow> hkey c p \<noteq> []"
  by (simp add: hkey_def hash_str_not_Nil)

lemma bucket_is_other:
  "fsize c p \<noteq> s \<Longrightarrow> filter (\<lambda>q. fsize c q = s) (cs @ [p]) = filter (\<lambda>q. fsize c q = s) cs"
  by simp

lemma grouped_update:
  assumes g: "grouped c cs m" and s0: "fsize c p \<noteq> 0"
    and b: "bucket_is c (filter (\<lambda>q. fsize c q = fsize c p) cs @ [p]) (Some b')"
  shows "grouped c (cs @ [p]) (AList.update (fsize c p) b' m)"
  using assms
  by (auto simp: grouped_def update_conv' distinct_update)

lemma add_file_grouped:
  assumes g: "grouped c cs (tmap st)" and p: "c p = Some f"
    and rd: "\<forall>q \<in> set cs. c q \<noteq> None"
  shows "snd (add_file c p st) = None \<and> grouped c (cs @ [p]) (tmap (fst (add_file c p st)))"
proof (cases "fsize c p = 0")
  case True
  with g show ?thesis by (auto simp: add_file_def grouped_def)
next
  case s0: False
  let ?s = "fsize c p"
  let ?F = "filter (\<lambda>q. fsize c q = ?s) cs"
  let ?m = "tmap st"
  from g s0 have bi: "bucket_is c ?F (map_of ?m ?s)" by (simp add: grouped_def)
  note hp = fhash_readable [of c p f, OF p]
  have "\<exists>b'. snd (add_file c p st) = None \<and>
          tmap (fst (add_file c p st)) = AList.update ?s b' ?m \<and>
          bucket_is c (?F @ [p]) (Some b')"
  proof (cases ?F)
    case Nil
    with bi have "at ?m ?s = []" by (simp add: bucket_is_def at_def)
    with s0 Nil show ?thesis
      by (simp add: add_file_def Let_def emplace_back_def at_def bucket_is_def)
  next
    case (Cons q rest)
    then have "q \<in> set ?F" by simp
    then have "q \<in> set cs" by simp
    with rd obtain g where q: "c q = Some g" by auto
    note hq = fhash_readable [of c q g, OF q]
    show ?thesis
    proof (cases rest)
      case Nil
      with Cons bi have at: "at ?m ?s = [([], [q])]" by (simp add: bucket_is_def at_def)
      have "bucket_is c ([q] @ [p]) (Some (emplace_back (hkey c p) p [(hkey c q, [q])]))"
        by (auto simp: bucket_is_def emplace_back_def at_def update_conv')
      with s0 Cons Nil at hq hp show ?thesis
        by (auto simp: add_file_def Let_def lazy_hash_def)
    next
      case (Cons q2 rest2)
      with \<open>?F = q # rest\<close> bi obtain b where b: "map_of ?m ?s = Some b" "distinct (map fst b)"
        and bh: "\<And>h. map_of b h = (if filter (\<lambda>p. hkey c p = h) ?F = [] then None
                                 else Some (filter (\<lambda>p. hkey c p = h) ?F))"
        by (auto simp: bucket_is_def)
      from b have at: "at ?m ?s = b" by (simp add: at_def)
      from \<open>?F = q # rest\<close> have "filter (\<lambda>p. hkey c p = hkey c q) ?F \<noteq> []"
        by (auto simp: filter_empty_conv)
      with bh [of "hkey c q"] have bne: "b \<noteq> []" by auto
      have b1: "(if length b = 1 then lazy_hash c b st else (b, st, None))
                  = (b, (if length b = 1 then st\<lparr>hashed := hashed st @ [hd (snd (hd b))]\<rparr> else st), None)"
      proof (cases "length b = 1")
        case False
        then show ?thesis by simp
      next
        case True
        then obtain k fl where bk: "b = [(k, fl)]" by (cases b) (auto simp: length_Suc_conv)
        from bh [of k] bk have fl: "fl = filter (\<lambda>p. hkey c p = k) ?F" "fl \<noteq> []"
          by (auto split: if_splits)
        from fl(2) obtain x xs where x: "fl = x # xs" by (cases fl) auto
        then have "x \<in> set fl" by simp
        then have xk: "hkey c x = k" and "x \<in> set cs" unfolding fl(1) by auto
        with rd obtain gx where gx: "c x = Some gx" by auto
        from fhash_readable [of c x gx, OF gx] xk bk x True show ?thesis
          by (simp add: lazy_hash_def)
      qed
      have "bucket_is c (?F @ [p]) (Some (emplace_back (hkey c p) p b))"
        using \<open>?F = q # rest\<close> Cons b(2) bh
        by (auto simp: bucket_is_def emplace_back_def at_def update_conv' distinct_update)
      with s0 at bne b1 p show ?thesis
        by (auto simp: add_file_def Let_def fhash_def hkey_def)
    qed
  qed
  then obtain b' where r: "snd (add_file c p st) = None"
    and t: "tmap (fst (add_file c p st)) = AList.update ?s b' ?m"
    and bi': "bucket_is c (?F @ [p]) (Some b')" by blast
  from grouped_update [OF g s0 bi'] r t show ?thesis by simp
qed












section \<open>Further properties of the lazy grouping\<close>

text \<open>
  The part of C1 that holds: a file whose size no other file shares is never hashed.
\<close>

lemma hashed_twice_sized_mono:
  "hashed_twice_sized c cs hs \<Longrightarrow> hashed_twice_sized c (cs @ [p]) hs"
  by (auto simp: hashed_twice_sized_def)

lemma add_file_hashed:
  assumes g: "grouped c cs (tmap st)" and p: "c p = Some f"
    and rd: "\<forall>q \<in> set cs. c q \<noteq> None"
    and h: "hashed_twice_sized c cs (hashed st)"
  shows "hashed_twice_sized c (cs @ [p]) (hashed (fst (add_file c p st)))"
proof (cases "fsize c p = 0")
  case True
  with h show ?thesis by (simp add: add_file_def hashed_twice_sized_mono)
next
  case s0: False
  let ?s = "fsize c p"
  let ?F = "filter (\<lambda>q. fsize c q = ?s) cs"
  let ?m = "tmap st"
  from g s0 have bi: "bucket_is c ?F (map_of ?m ?s)" by (simp add: grouped_def)
  note hp = fhash_readable [of c p f, OF p]
  note h' = hashed_twice_sized_mono [OF h, of p]
  show ?thesis
  proof (cases ?F)
    case Nil
    with bi have "at ?m ?s = []" by (simp add: bucket_is_def at_def)
    with s0 h' show ?thesis by (simp add: add_file_def Let_def)
  next
    case (Cons q rest)
    then have qF: "q \<in> set ?F" by simp
    then have "q \<in> set cs" by simp
    with rd obtain g where q: "c q = Some g" by auto
    note hq = fhash_readable [of c q g, OF q]
    from Cons have two: "2 \<le> length (filter (\<lambda>q. fsize c q = ?s) (cs @ [p]))" by simp
    show ?thesis
    proof (cases rest)
      case Nil
      with Cons bi have at: "at ?m ?s = [([], [q])]" by (simp add: bucket_is_def at_def)
      from qF have "fsize c q = ?s" by simp
      with s0 at hq hp h' two show ?thesis
        by (simp add: add_file_def Let_def lazy_hash_def hashed_twice_sized_def)
    next
      case (Cons q2 rest2)
      with \<open>?F = q # rest\<close> bi obtain b where b: "map_of ?m ?s = Some b"
        and bh: "\<And>h. map_of b h = (if filter (\<lambda>p. hkey c p = h) ?F = [] then None
                                 else Some (filter (\<lambda>p. hkey c p = h) ?F))"
        by (auto simp: bucket_is_def)
      from b have at: "at ?m ?s = b" by (simp add: at_def)
      from \<open>?F = q # rest\<close> have "filter (\<lambda>p. hkey c p = hkey c q) ?F \<noteq> []"
        by (auto simp: filter_empty_conv)
      with bh [of "hkey c q"] have bne: "b \<noteq> []" by auto
      have "\<exists>st1. (if length b = 1 then lazy_hash c b st else (b, st, None)) = (b, st1, None) \<and>
              tmap st1 = tmap st \<and> hashed_twice_sized c (cs @ [p]) (hashed st1)"
      proof (cases "length b = 1")
        case False
        with h' show ?thesis by simp
      next
        case True
        then obtain k fl where bk: "b = [(k, fl)]" by (cases b) (auto simp: length_Suc_conv)
        from bh [of k] bk have fl: "fl = filter (\<lambda>p. hkey c p = k) ?F" "fl \<noteq> []"
          by (auto split: if_splits)
        from fl(2) obtain x xs where x: "fl = x # xs" by (cases fl) auto
        then have "x \<in> set fl" by simp
        then have xk: "hkey c x = k" and xs: "fsize c x = ?s" and "x \<in> set cs"
          unfolding fl(1) by auto
        with rd obtain gx where gx: "c x = Some gx" by auto
        from fhash_readable [of c x gx, OF gx] xk xs bk x True h' two show ?thesis
          by (simp add: lazy_hash_def hashed_twice_sized_def)
      qed
      then obtain st1 where l: "(if length b = 1 then lazy_hash c b st else (b, st, None)) = (b, st1, None)"
        and h1: "hashed_twice_sized c (cs @ [p]) (hashed st1)" by blast
      from s0 at bne l hp h1 two show ?thesis
        by (simp add: add_file_def Let_def hashed_twice_sized_def)
    qed
  qed
qed

lemma run_hashed:
  assumes "grouped c cs (tmap st)" and "\<forall>q \<in> set cs. c q \<noteq> None"
    and "\<forall>q \<in> set (processed evs). c q \<noteq> None"
    and "hashed_twice_sized c cs (hashed st)"
  shows "hashed_twice_sized c (cs @ processed evs)
           (hashed (fst (run (\<lambda>d p. add_file c p) evs st)))"
  using assms
proof (induction evs arbitrary: cs st rule: processed.induct)
  case 1
  then show ?case by simp
next
  case (2 p evs)
  then show ?case by simp
next
  case (3 d p evs)
  from "3.prems"(3) obtain f where p: "c p = Some f" by auto
  let ?A = "add_file c p st"
  from add_file_grouped [OF "3.prems"(1) p "3.prems"(2)]
  have a: "snd ?A = None" and g: "grouped c (cs @ [p]) (tmap (fst ?A))" by simp_all
  have "hashed_twice_sized c ((cs @ [p]) @ processed evs)
           (hashed (fst (run (\<lambda>d p. add_file c p) evs (fst ?A))))"
    using g
  proof (rule "3.IH")
    show "\<forall>q \<in> set (cs @ [p]). c q \<noteq> None" using "3.prems"(2) p by auto
    show "\<forall>q \<in> set (processed evs). c q \<noteq> None" using "3.prems"(3) by auto
    show "hashed_twice_sized c (cs @ [p]) (hashed (fst ?A))"
      by (rule add_file_hashed [OF "3.prems"(1) p "3.prems"(2) "3.prems"(4)])
  qed
  moreover have "run (\<lambda>d p. add_file c p) (Candidate d p # evs) st
      = run (\<lambda>d p. add_file c p) evs (fst ?A)"
    using a by (cases ?A) simp
  ultimately show ?case by simp
qed

lemma unique_size_never_hashed:
  assumes rd: "\<forall>p \<in> set (processed (walk path dir)). c p \<noteq> None"
    and one: "length (filter (\<lambda>q. fsize c q = fsize c x) (processed (walk path dir))) \<le> 1"
  shows "x \<notin> set (hashed (fst (traverse c path dir \<lparr>tmap = [], hashed = []\<rparr>)))"
proof -
  have "grouped c [] (tmap \<lparr>tmap = [], hashed = []\<rparr>)"
    by (simp add: grouped_def bucket_is_def)
  from run_hashed [OF this _ rd, simplified]
  have "hashed_twice_sized c (processed (walk path dir))
          (hashed (fst (traverse c path dir \<lparr>tmap = [], hashed = []\<rparr>)))"
    by (simp add: traverse_run hashed_twice_sized_def)
  with one show ?thesis by (auto simp: hashed_twice_sized_def)
qed

subsection \<open>Groups and equal files\<close>











end
